theory Spec2Isabelle
  imports Main "HOL-Library.Sublist" "HOL-Library.FSet"
begin

section \<open>Python text\<close>

text \<open>
  A Python \<open>str\<close> is a sequence of Unicode code points, and \<open>len\<close>, slicing and the
  character classes of \<open>re\<close> count code points. A string is therefore a list of code
  points (natural numbers); \<open>u\<close> embeds an ASCII literal.
\<close>

type_synonym str = "nat list"

definition u :: "string \<Rightarrow> str" where
  "u s = map of_char s"

text \<open>\<open>needle in hay\<close>: the needle occurs as a contiguous run of the haystack.\<close>

fun contains :: "str \<Rightarrow> str \<Rightarrow> bool" where
  "contains needle [] = (needle = [])"
| "contains needle (c # cs) = (prefix needle (c # cs) \<or> contains needle cs)"

text \<open>\<open>s.startswith(p)\<close> and \<open>s.endswith(p)\<close>.\<close>

definition startswith :: "str \<Rightarrow> str \<Rightarrow> bool" where
  "startswith s p = prefix p s"

definition endswith :: "str \<Rightarrow> str \<Rightarrow> bool" where
  "endswith s p = suffix p s"

text \<open>
  \<open>str.isspace\<close>, the characters removed by \<open>str.strip()\<close> and matched by \<open>\s\<close> in a
  \<open>str\<close> pattern: the Unicode white space of CPython.
\<close>

definition is_space :: "nat \<Rightarrow> bool" where
  "is_space c = ((0x09 \<le> c \<and> c \<le> 0x0D) \<or> (0x1C \<le> c \<and> c \<le> 0x20) \<or> c = 0x85 \<or> c = 0xA0
     \<or> c = 0x1680 \<or> (0x2000 \<le> c \<and> c \<le> 0x200A) \<or> c = 0x2028 \<or> c = 0x2029
     \<or> c = 0x202F \<or> c = 0x205F \<or> c = 0x3000)"

definition strip :: "str \<Rightarrow> str" where
  "strip s = rev (dropWhile is_space (rev (dropWhile is_space s)))"

text \<open>
  \<open>str.lower()\<close> on the letters A to Z; every other code point is kept. The program
  only asks whether a lower-cased text starts with \<open>gg\<close> or contains a lower-cased group
  name, and these names consist of ASCII letters, digits, \<open>-\<close>, a space and one caseless
  pictograph. Python's \<open>lower\<close> produces an ASCII letter from a code point outside ASCII
  in two cases only: U+212A gives \<open>k\<close>, which occurs in no name, and U+0130 gives \<open>i\<close>
  followed by U+0307, where every \<open>i\<close> of a name is followed by a letter. Both questions
  therefore have the same answer for this function as for Python's.
\<close>

definition lower_char :: "nat \<Rightarrow> nat" where
  "lower_char c = (if 0x41 \<le> c \<and> c \<le> 0x5A then c + 0x20 else c)"

definition lower :: "str \<Rightarrow> str" where
  "lower s = map lower_char s"

text \<open>
  \<open>\d\<close> in a \<open>str\<close> pattern matches every Unicode decimal digit (general category Nd),
  not only 0 to 9. The table lists the runs of category Nd in Unicode 15.0, as first and
  last code point: it is the character database of CPython 3.12, the oldest version that
  runs this program (line 195 nests double quotes in an f-string). Unicode 14.0 lacks the
  runs from U+11F50 and from U+1E4F0, and later versions add runs; the properties proved
  below use of the table only that \<open>@\<close> is no digit.
\<close>

definition decimal_ranges :: "(nat \<times> nat) list" where
  "decimal_ranges =
     [(0x30, 0x39), (0x660, 0x669), (0x6F0, 0x6F9), (0x7C0, 0x7C9), (0x966, 0x96F),
      (0x9E6, 0x9EF), (0xA66, 0xA6F), (0xAE6, 0xAEF), (0xB66, 0xB6F), (0xBE6, 0xBEF),
      (0xC66, 0xC6F), (0xCE6, 0xCEF), (0xD66, 0xD6F), (0xDE6, 0xDEF), (0xE50, 0xE59),
      (0xED0, 0xED9), (0xF20, 0xF29), (0x1040, 0x1049), (0x1090, 0x1099), (0x17E0, 0x17E9),
      (0x1810, 0x1819), (0x1946, 0x194F), (0x19D0, 0x19D9), (0x1A80, 0x1A89),
      (0x1A90, 0x1A99), (0x1B50, 0x1B59), (0x1BB0, 0x1BB9), (0x1C40, 0x1C49),
      (0x1C50, 0x1C59), (0xA620, 0xA629), (0xA8D0, 0xA8D9), (0xA900, 0xA909),
      (0xA9D0, 0xA9D9), (0xA9F0, 0xA9F9), (0xAA50, 0xAA59), (0xABF0, 0xABF9),
      (0xFF10, 0xFF19), (0x104A0, 0x104A9), (0x10D30, 0x10D39), (0x11066, 0x1106F),
      (0x110F0, 0x110F9), (0x11136, 0x1113F), (0x111D0, 0x111D9), (0x112F0, 0x112F9),
      (0x11450, 0x11459), (0x114D0, 0x114D9), (0x11650, 0x11659), (0x116C0, 0x116C9),
      (0x11730, 0x11739), (0x118E0, 0x118E9), (0x11950, 0x11959), (0x11C50, 0x11C59),
      (0x11D50, 0x11D59), (0x11DA0, 0x11DA9), (0x11F50, 0x11F59), (0x16A60, 0x16A69),
      (0x16AC0, 0x16AC9), (0x16B50, 0x16B59), (0x1D7CE, 0x1D7FF), (0x1E140, 0x1E149),
      (0x1E2F0, 0x1E2F9), (0x1E4F0, 0x1E4F9), (0x1E950, 0x1E959), (0x1FBF0, 0x1FBF9)]"

definition is_digit :: "nat \<Rightarrow> bool" where
  "is_digit c = list_ex (\<lambda>(lo, hi). lo \<le> c \<and> c \<le> hi) decimal_ranges"

text \<open>Python truthiness of an optional string: \<open>None\<close> and \<open>""\<close> are false.\<close>

definition truthy :: "str option \<Rightarrow> bool" where
  "truthy x = (case x of None \<Rightarrow> False | Some s \<Rightarrow> s \<noteq> [])"

section \<open>Inbound events\<close>

text \<open>
  A JSON value as far as the pipeline tells values apart: its kind, and the text of a
  string. (Of a value of \<open>type\<close>, \<open>body\<close> or \<open>sender\<close> that is not a string the code
  uses nothing but the kind.)
\<close>

datatype json = JNull | JBool | JNumber | JString str | JArray | JObject

text \<open>
  The \<open>payload\<close> object of a webhook event. The identifiers \<open>id\<close>, \<open>from\<close> and \<open>to\<close>
  are strings when they are present: each is \<open>message_data.get(key)\<close>, \<open>None\<close> when the
  key is absent or null. \<open>type\<close>, \<open>body\<close> and \<open>sender\<close> are read with a default, which
  replaces an absent key but not a null: they are \<open>None\<close> when the key is absent and the
  JSON value otherwise. \<open>serialized\<close> is \<open>str(webhook_data)\<close>, the text of the whole
  event as Python prints it.
\<close>

record payload =
  msg_id :: "str option"
  from_field :: "str option"
  to_field :: "str option"
  msg_type :: "json option"
  body :: "json option"
  sender :: "json option"

record webhook =
  event :: "str option"
  message_data :: payload
  serialized :: str

section \<open>Chat identity resolver\<close>

definition group_suffix :: str where
  "group_suffix = u ''@g.us''"

definition individual_suffix :: str where
  "individual_suffix = u ''@c.us''"

text \<open>\<open>field and "@g.us" in field\<close>\<close>

definition is_group_field :: "str option \<Rightarrow> bool" where
  "is_group_field f = (case f of None \<Rightarrow> False | Some s \<Rightarrow> s \<noteq> [] \<and> contains group_suffix s)"

text \<open>Lines 424 to 438 of \<open>process_waha_message\<close> (and again lines 545 to 553).\<close>

definition resolve_chat_id :: "payload \<Rightarrow> str option" where
  "resolve_chat_id p =
     (if is_group_field (from_field p) then from_field p
      else if is_group_field (to_field p) then to_field p
      else to_field p)"

text \<open>The table of \<open>map_waha_internal_id_to_group_id\<close>, in the order the dict is written.\<close>

definition known_groups :: "(str \<times> str) list" where
  "known_groups =
     [(u ''nerds'', u ''120363422170611614@g.us''),
      (u ''BTC-svip-76'', u ''120363038777117231@g.us''),
      (u ''Golfing '' @ [0x26F3], u ''13065365236-1631906035@g.us''),
      (u ''Uber'', u ''17059848341-1629060796@g.us''),
      (u ''Apple Tree-ers'', u ''17059848341-1626995520@g.us'')]"

text \<open>
  \<open>re.findall(r'(\d+@g\.us)', s)[0]\<close> when there is a match: the leftmost position where
  a maximal run of digits is followed by \<open>@g.us\<close>.
\<close>

fun find_group_id :: "str \<Rightarrow> str option" where
  "find_group_id [] = None"
| "find_group_id (c # cs) =
     (if is_digit c \<and> prefix group_suffix (dropWhile is_digit (c # cs))
      then Some (takeWhile is_digit (c # cs) @ group_suffix)
      else find_group_id cs)"

datatype level = INFO | WARNING | ERROR

text \<open>
  \<open>map_waha_internal_id_to_group_id\<close>; the second argument is \<open>str(webhook_data)\<close>.
  It returns the identifier and what it logged.
\<close>

definition map_waha_internal_id_to_group_id :: "str \<Rightarrow> str \<Rightarrow> str \<times> (level \<times> string) list" where
  "map_waha_internal_id_to_group_id internal_id webhook_str =
     (case find (\<lambda>(group_name, group_id). contains (lower group_name) (lower webhook_str)) known_groups of
        Some (group_name, group_id) \<Rightarrow> (group_id, [(INFO, ''Mapped group name'')])
      | None \<Rightarrow>
          (case find_group_id webhook_str of
             Some g \<Rightarrow> (g, [])
           | None \<Rightarrow> (internal_id, [(WARNING, ''Could not map WAHA internal ID to real group ID'')])))"

text \<open>Lines 450 to 452: the guard and the call.\<close>

definition needs_mapping :: "str option \<Rightarrow> bool" where
  "needs_mapping chat_id =
     (case chat_id of None \<Rightarrow> False
      | Some c \<Rightarrow> c \<noteq> [] \<and> \<not> (endswith c individual_suffix \<or> endswith c group_suffix))"

definition final_chat_id :: "webhook \<Rightarrow> str option" where
  "final_chat_id w =
     (let chat_id = resolve_chat_id (message_data w) in
      if needs_mapping chat_id
      then Some (fst (map_waha_internal_id_to_group_id (the chat_id) (serialized w)))
      else chat_id)"

section \<open>Deduplication registry\<close>

text \<open>
  \<open>processed_message_ids\<close>, a set of message identifiers (\<open>None\<close> when the payload has
  no \<open>id\<close>). Lines 403 to 413: a known identifier stops the processing; a new one is
  added, and the set is cleared when it holds more than 1000 identifiers. The result is
  whether the message is a duplicate, and the registry afterwards.
\<close>

type_synonym registry = "str option fset"

definition record_message_id :: "str option \<Rightarrow> registry \<Rightarrow> bool \<times> registry" where
  "record_message_id message_id processed_message_ids =
     (if message_id |\<in>| processed_message_ids then (True, processed_message_ids)
      else let added = finsert message_id processed_message_ids in
        if fcard added > 1000 then (False, {||}) else (False, added))"

section \<open>Response shaping\<close>

text \<open>\<open>s.rsplit(' ', 1)[0]\<close>: what precedes the last space, or all of \<open>s\<close> without a space.\<close>

definition rsplit_head :: "str \<Rightarrow> str" where
  "rsplit_head s = (if 0x20 \<in> set s then rev (tl (dropWhile (\<lambda>c. c \<noteq> 0x20) (rev s))) else s)"

definition max_response_length :: nat where
  "max_response_length = 200"

definition ellipsis :: str where
  "ellipsis = u ''...''"

text \<open>Lines 501 to 504.\<close>

definition truncate_response :: "str \<Rightarrow> str" where
  "truncate_response response_text =
     (if length response_text > max_response_length
      then rsplit_head (take max_response_length response_text) @ ellipsis
      else response_text)"

text \<open>The character class of the pattern in line 510.\<close>

definition is_leading_emoji :: "nat \<Rightarrow> bool" where
  "is_leading_emoji c =
     ((0x1F600 \<le> c \<and> c \<le> 0x1F64F) \<or> (0x1F300 \<le> c \<and> c \<le> 0x1F5FF)
      \<or> (0x1F680 \<le> c \<and> c \<le> 0x1F6FF) \<or> (0x1F1E0 \<le> c \<and> c \<le> 0x1F1FF)
      \<or> (0x2600 \<le> c \<and> c \<le> 0x27BF) \<or> (0x1F900 \<le> c \<and> c \<le> 0x1F9FF)
      \<or> (0x1F018 \<le> c \<and> c \<le> 0x1F0FF) \<or> (0x1F200 \<le> c \<and> c \<le> 0x1F2FF)
      \<or> is_space c)"

definition robot :: str where
  "robot = [0x1F916]"

text \<open>Lines 510 to 511: \<open>re.sub\<close> of the leading run, then the wrapper.\<close>

definition format_response :: "str \<Rightarrow> str" where
  "format_response response_text =
     (let clean_response = dropWhile is_leading_emoji (strip response_text)
      in robot @ u '' _'' @ clean_response @ u ''_'')"

definition shape_response :: "str \<Rightarrow> str" where
  "shape_response response_text = format_response (truncate_response response_text)"

section \<open>Webhook pipeline\<close>

datatype error = TypeError string | AttributeError string | KeyError str | ValueError str | Raised str

text \<open>What the pipeline does to the outside, in order.\<close>

datatype effect =
    Execute str
  | SendText "str option" str "str option"
  | PostSeen "str option"
  | Log level string

text \<open>
  The collaborators: whether \<open>waha_client\<close> was created, the task executor (the \<open>raw\<close>
  text of its result, or the exception it raises), the transport's \<open>send_text_message\<close>
  (\<open>to\<close>, \<open>message\<close>, \<open>reply_to_message_id\<close>) and the HTTP request inside
  \<open>mark_as_read\<close>.
\<close>

record env =
  client_ready :: bool
  crew :: "str \<Rightarrow> error + str"
  send :: "str option \<Rightarrow> str \<Rightarrow> str option \<Rightarrow> error + unit"
  seen :: "str option \<Rightarrow> error + unit"

text \<open>
  \<open>WAHAClient.mark_as_read(self, message_id)\<close> takes one argument besides \<open>self\<close>; a
  call with any other number of positional arguments raises \<open>TypeError\<close> before the body
  runs.
\<close>

definition mark_as_read :: "env \<Rightarrow> str option list \<Rightarrow> (error + unit) \<times> effect list" where
  "mark_as_read e args =
     (case args of
        [message_id] \<Rightarrow>
          (case seen e message_id of
             Inl x \<Rightarrow> (Inl x, [PostSeen message_id, Log ERROR ''Error marking message as read''])
           | Inr r \<Rightarrow> (Inr r, [PostSeen message_id, Log INFO ''Message marked as read'']))
      | _ \<Rightarrow> (Inl (TypeError ''WAHAClient.mark_as_read() takes 2 positional arguments but 3 were given''), []))"

text \<open>Lines 456 to 460: the attempt, its exception caught and logged.\<close>

definition try_mark_as_read :: "env \<Rightarrow> str option \<Rightarrow> str option \<Rightarrow> effect list" where
  "try_mark_as_read e message_id chat_id =
     (case mark_as_read e [message_id, chat_id] of
        (Inl x, fx) \<Rightarrow> fx @ [Log WARNING ''Could not mark as read'']
      | (Inr r, fx) \<Rightarrow> fx)"

definition trigger :: str where
  "trigger = u ''gg''"

text \<open>
  \<open>message_data.get("type", "chat")\<close> and \<open>message_data.get("body", "")\<close>: the default
  for an absent key, the value (also a null) otherwise.
\<close>

definition message_type :: "payload \<Rightarrow> json" where
  "message_type p = (case msg_type p of None \<Rightarrow> JString (u ''chat'') | Some t \<Rightarrow> t)"

definition message_text :: "payload \<Rightarrow> json" where
  "message_text p = (case body p of None \<Rightarrow> JString [] | Some b \<Rightarrow> b)"

text \<open>
  Line 441, \<open>message_data.get("sender", {}).get("name", "User")\<close>: the second \<open>get\<close>
  exists on a dict only, so a \<open>sender\<close> that is null or any other value than an object
  raises \<open>AttributeError\<close>. The name is used in log lines only.
\<close>

definition sender_name :: "payload \<Rightarrow> error + unit" where
  "sender_name p =
     (case sender p of
        None \<Rightarrow> Inr ()
      | Some JObject \<Rightarrow> Inr ()
      | Some v \<Rightarrow> Inl (AttributeError ''object has no attribute get''))"

text \<open>
  Line 447, the debug log: \<open>message_data.get('body', '')[:50]\<close>. A string or a list can
  be sliced; a null, a boolean or a number raises \<open>TypeError\<close>, and an object, which has
  no slice among its keys, raises \<open>KeyError\<close>. The slice is used in the log line only.
\<close>

definition debug_log :: "payload \<Rightarrow> error + unit" where
  "debug_log p =
     (case message_text p of
        JString t \<Rightarrow> Inr ()
      | JArray \<Rightarrow> Inr ()
      | JObject \<Rightarrow> Inl (KeyError (u ''slice(None, 50, None)''))
      | v \<Rightarrow> Inl (TypeError ''object is not subscriptable''))"

text \<open>
  Lines 462 to 488, the filters: they return with a reason logged, raise (\<open>strip\<close> exists
  on a string only), or give the instruction for the executor. A type that is not a
  string is different from \<open>"text"\<close> and from \<open>"chat"\<close>.
\<close>

datatype filtered = Skip string | Raise error | Instruction str

definition instruction_of :: "payload \<Rightarrow> filtered" where
  "instruction_of p =
     (if message_type p \<notin> set [JString (u ''text''), JString (u ''chat'')]
      then Skip ''Skipping non-text message type''
      else case message_text p of
        JString t \<Rightarrow>
          (if strip t = [] then Skip ''Empty message, skipping''
           else if \<not> startswith (lower t) trigger then Skip ''Message does not start with gg, skipping''
           else let clean_message = strip (drop 2 t) in
             if clean_message = [] then Skip ''No message after gg, skipping''
             else Instruction clean_message)
      | v \<Rightarrow> Raise (AttributeError ''object has no attribute strip''))"

text \<open>Lines 449 to 454, with what the mapping logged.\<close>

definition map_chat_id :: "webhook \<Rightarrow> str option \<times> effect list" where
  "map_chat_id w =
     (let chat_id = resolve_chat_id (message_data w) in
      if needs_mapping chat_id
      then (case map_waha_internal_id_to_group_id (the chat_id) (serialized w) of
              (g, logs) \<Rightarrow> (Some g, map (\<lambda>(l, m). Log l m) logs))
      else (chat_id, []))"

text \<open>Lines 492 to 535: execution, shaping and the reply.\<close>

definition respond :: "env \<Rightarrow> str option \<Rightarrow> str option \<Rightarrow> str \<Rightarrow> (error + unit) \<times> effect list" where
  "respond e chat_id message_id clean_message =
     (case crew e clean_message of
        Inl x \<Rightarrow> (Inl x, [Execute clean_message])
      | Inr response_text \<Rightarrow>
          (let formatted_response = shape_response response_text in
           case send e chat_id formatted_response message_id of
             Inl x \<Rightarrow> (Inl x, [Execute clean_message, SendText chat_id formatted_response message_id,
                               Log ERROR ''Failed to send response''])
           | Inr r \<Rightarrow> (Inr (), [Execute clean_message, SendText chat_id formatted_response message_id,
                               Log INFO ''Response sent successfully''])))"

text \<open>
  Lines 400 to 454, the \<open>try\<close> block up to the final chat identifier: the message is a
  duplicate, or the sender lookup or the debug log raises after the identifier was
  recorded, or the block reaches the mark-as-read attempt with the registry, the final
  chat identifier and what the mapping logged.
\<close>

datatype stage = Duplicate registry | Aborted error registry | Reached registry "str option" "effect list"

definition resolve_stage :: "webhook \<Rightarrow> registry \<Rightarrow> stage" where
  "resolve_stage w processed_message_ids =
     (let p = message_data w in
      case record_message_id (msg_id p) processed_message_ids of
        (True, reg) \<Rightarrow> Duplicate reg
      | (False, reg) \<Rightarrow>
          (case sender_name p of
             Inl x \<Rightarrow> Aborted x reg
           | Inr n \<Rightarrow>
               (case debug_log p of
                  Inl x \<Rightarrow> Aborted x reg
                | Inr l \<Rightarrow> (case map_chat_id w of (chat_id, logs) \<Rightarrow> Reached reg chat_id logs))))"

text \<open>Lines 462 to 535, what follows the mark-as-read attempt: the filters and the reply.\<close>

definition respond_stage :: "env \<Rightarrow> payload \<Rightarrow> str option \<Rightarrow> (error + unit) \<times> effect list" where
  "respond_stage e p chat_id =
     (case instruction_of p of
        Skip reason \<Rightarrow> (Inr (), [Log INFO reason])
      | Raise x \<Rightarrow> (Inl x, [])
      | Instruction clean_message \<Rightarrow> respond e chat_id (msg_id p) clean_message)"

text \<open>The \<open>try\<close> block of \<open>process_waha_message\<close>, lines 399 to 535.\<close>

definition try_block :: "env \<Rightarrow> webhook \<Rightarrow> registry \<Rightarrow> (error + unit) \<times> registry \<times> effect list" where
  "try_block e w processed_message_ids =
     (case resolve_stage w processed_message_ids of
        Duplicate reg \<Rightarrow> (Inr (), reg, [Log INFO ''Skipping duplicate message''])
      | Aborted x reg \<Rightarrow> (Inl x, reg, [])
      | Reached reg chat_id logs \<Rightarrow>
          (case respond_stage e (message_data w) chat_id of
             (r, fx) \<Rightarrow>
               (r, reg, logs @ try_mark_as_read e (msg_id (message_data w)) chat_id @ fx)))"

definition apology :: str where
  "apology = [0x274C] @ u '' Sorry, I encountered an error processing your message. Please try again later.''"

text \<open>The \<open>except\<close> block, lines 537 to 562.\<close>

definition on_error :: "env \<Rightarrow> webhook \<Rightarrow> effect list" where
  "on_error e w =
     (let p = message_data w; message_id = msg_id p; chat_id = resolve_chat_id p in
      Log ERROR ''Error processing WAHA message'' #
      (if truthy chat_id
       then (case send e chat_id apology message_id of
               Inl x \<Rightarrow> [SendText chat_id apology message_id, Log ERROR ''Failed to send error message'']
             | Inr r \<Rightarrow> [SendText chat_id apology message_id])
       else []))"

text \<open>
  \<open>process_waha_message\<close>: it returns normally in every case; the result is the registry
  afterwards and the effects.
\<close>

definition process_waha_message :: "env \<Rightarrow> webhook \<Rightarrow> registry \<Rightarrow> registry \<times> effect list" where
  "process_waha_message e w processed_message_ids =
     (if \<not> client_ready e then (processed_message_ids, [Log ERROR ''WAHA client not initialized''])
      else case try_block e w processed_message_ids of
        (Inr r, reg, fx) \<Rightarrow> (reg, fx)
      | (Inl x, reg, fx) \<Rightarrow> (reg, fx @ on_error e w))"

text \<open>\<open>handle_webhook\<close>, lines 337 to 347: only message events are processed.\<close>

definition handle_webhook :: "env \<Rightarrow> webhook \<Rightarrow> registry \<Rightarrow> registry \<times> effect list" where
  "handle_webhook e w processed_message_ids =
     (if event w \<in> set [Some (u ''message''), Some (u ''message.any'')]
      then process_waha_message e w processed_message_ids
      else (processed_message_ids, [Log INFO ''Received non-message event'']))"

fun is_execute :: "effect \<Rightarrow> bool" where
  "is_execute (Execute i) = True"
| "is_execute x = False"

fun is_send :: "effect \<Rightarrow> bool" where
  "is_send (SendText t m r) = True"
| "is_send x = False"

fun is_post_seen :: "effect \<Rightarrow> bool" where
  "is_post_seen (PostSeen m) = True"
| "is_post_seen x = False"

section \<open>Job store and payment callback\<close>

text \<open>\<open>str(e)\<close> of a caught exception; a \<open>KeyError\<close> prints its key in quotes.\<close>

fun str_of_error :: "error \<Rightarrow> str" where
  "str_of_error (TypeError m) = u m"
| "str_of_error (AttributeError m) = u m"
| "str_of_error (KeyError k) = [0x27] @ k @ [0x27]"
| "str_of_error (ValueError m) = m"
| "str_of_error (Raised m) = m"

datatype job_status = awaiting_payment | running | completed | failed

text \<open>The task executor's result object: its \<open>raw\<close> text and its \<open>json_dict\<close>.\<close>

record crew_output =
  raw :: str
  json_dict :: "str option"

text \<open>
  An entry of \<open>jobs\<close>. The dict has no \<open>error\<close> key until a failure writes one, and
  \<open>result\<close> is \<open>None\<close> until a completion writes one: both are options.
\<close>

record job =
  status :: job_status
  payment_status :: "str option"
  payment_id :: str
  input_data :: "(str \<times> str) list"
  result :: "crew_output option"
  error :: "str option"
  identifier_from_purchaser :: str

text \<open>A \<open>Payment\<close> object of the payment library, as far as the handlers use it.\<close>

record payment =
  payment_ids :: "str list"
  monitoring :: bool

text \<open>The module-level dicts \<open>jobs\<close> and \<open>payment_instances\<close>, keyed by job identifier.\<close>

record store =
  jobs :: "str \<rightharpoonup> job"
  payment_instances :: "str \<rightharpoonup> payment"

record start_job_request =
  req_identifier_from_purchaser :: str
  req_input_data :: "(str \<times> str) list"

text \<open>
  The collaborators of the job handlers, each returning normally or raising:
  \<open>uuid.uuid4()\<close>, \<open>create_payment_request\<close> (its \<open>blockchainIdentifier\<close>),
  \<open>start_status_monitoring\<close>, the task executor, \<open>complete_payment\<close>,
  \<open>check_payment_status\<close> (the \<open>status\<close> it reports) and \<open>stop_status_monitoring\<close>,
  whose argument counts the calls one run of the callback has made before (0 for the
  first).
\<close>

record services =
  new_job_id :: str
  create_payment_request :: "error + str"
  start_status_monitoring :: "error + unit"
  execute_crew_task :: "(str \<times> str) list \<Rightarrow> error + crew_output"
  complete_payment :: "str \<Rightarrow> str option \<Rightarrow> error + unit"
  check_payment_status :: "error + str option"
  stop_status_monitoring :: "nat \<Rightarrow> error + unit"

datatype http_error = HTTPException nat

text \<open>Calls to the collaborators, in order.\<close>

datatype call = RunCrew | CompletePayment str | StopMonitoring str

fun is_stop :: "call \<Rightarrow> bool" where
  "is_stop (StopMonitoring j) = True"
| "is_stop c = False"

definition empty_store :: store where
  "empty_store = \<lparr>jobs = Map.empty, payment_instances = Map.empty\<rparr>"

text \<open>
  \<open>start_job\<close>, lines 102 to 183: the job identifier or the HTTP error, and the store
  afterwards. Every exception becomes status 400.
\<close>

definition start_job :: "services \<Rightarrow> start_job_request \<Rightarrow> store \<Rightarrow> (http_error + str) \<times> store" where
  "start_job sv data s =
     (let job_id = new_job_id sv in
      case map_of (req_input_data data) (u ''text'') of
        None \<Rightarrow> (Inl (HTTPException 400), s)
      | Some input_text \<Rightarrow>
          (case create_payment_request sv of
             Inl x \<Rightarrow> (Inl (HTTPException 400), s)
           | Inr pid \<Rightarrow>
               (let s1 = s\<lparr>jobs := (jobs s)(job_id \<mapsto>
                            \<lparr>status = awaiting_payment,
                             payment_status = Some (u ''pending''),
                             payment_id = pid,
                             input_data = req_input_data data,
                             result = None,
                             error = None,
                             identifier_from_purchaser = req_identifier_from_purchaser data\<rparr>),
                          payment_instances := (payment_instances s)(job_id \<mapsto>
                            \<lparr>payment_ids = [pid], monitoring = False\<rparr>)\<rparr>
                in case start_status_monitoring sv of
                     Inl x \<Rightarrow> (Inl (HTTPException 400), s1)
                   | Inr r \<Rightarrow>
                       (Inr job_id,
                        s1\<lparr>payment_instances := (payment_instances s1)(job_id \<mapsto>
                            \<lparr>payment_ids = [pid], monitoring = True\<rparr>)\<rparr>))))"

text \<open>
  The release step, written twice in \<open>handle_payment_status\<close> (lines 213 to 215 and 222
  to 224): \<open>if job_id in payment_instances\<close>, stop the monitoring and delete the entry.
  \<open>n\<close> counts the earlier calls of \<open>stop_status_monitoring\<close>.
\<close>

definition release_monitor :: "services \<Rightarrow> nat \<Rightarrow> str \<Rightarrow> store \<Rightarrow> (error + unit) \<times> store \<times> call list" where
  "release_monitor sv n job_id s =
     (case payment_instances s job_id of
        None \<Rightarrow> (Inr (), s, [])
      | Some p \<Rightarrow>
          (case stop_status_monitoring sv n of
             Inl x \<Rightarrow> (Inl x, s, [StopMonitoring job_id])
           | Inr r \<Rightarrow> (Inr (), s\<lparr>payment_instances := (payment_instances s)(job_id := None)\<rparr>,
                       [StopMonitoring job_id])))"

text \<open>Line 194: \<open>jobs[job_id]["status"] = "running"\<close>.\<close>

definition mark_running :: "str \<Rightarrow> store \<Rightarrow> error + store" where
  "mark_running job_id s =
     (case jobs s job_id of
        None \<Rightarrow> Inl (KeyError job_id)
      | Some j \<Rightarrow> Inr (s\<lparr>jobs := (jobs s)(job_id \<mapsto> j\<lparr>status := running\<rparr>)\<rparr>))"

text \<open>Lines 197 to 215, the rest of the \<open>try\<close> block, from the store of line 194.\<close>

definition execute_and_finalize :: "services \<Rightarrow> str \<Rightarrow> str \<Rightarrow> store \<Rightarrow> (error + unit) \<times> store \<times> call list" where
  "execute_and_finalize sv job_id pid s =
     (case jobs s job_id of
        None \<Rightarrow> (Inl (KeyError job_id), s, [])
      | Some j \<Rightarrow>
          (case execute_crew_task sv (input_data j) of
             Inl x \<Rightarrow> (Inl x, s, [RunCrew])
           | Inr res \<Rightarrow>
               (case payment_instances s job_id of
                  None \<Rightarrow> (Inl (KeyError job_id), s, [RunCrew])
                | Some p \<Rightarrow>
                    (case complete_payment sv pid (json_dict res) of
                       Inl x \<Rightarrow> (Inl x, s, [RunCrew, CompletePayment pid])
                     | Inr r \<Rightarrow>
                         (let s2 = s\<lparr>jobs := (jobs s)(job_id \<mapsto>
                                     j\<lparr>status := completed,
                                       payment_status := Some (u ''completed''),
                                       result := Some res\<rparr>)\<rparr>
                          in case release_monitor sv 0 job_id s2 of
                               (r', s3, cs) \<Rightarrow> (r', s3, [RunCrew, CompletePayment pid] @ cs))))))"

text \<open>The \<open>try\<close> block, lines 190 to 215.\<close>

definition try_job :: "services \<Rightarrow> str \<Rightarrow> str \<Rightarrow> store \<Rightarrow> (error + unit) \<times> store \<times> call list" where
  "try_job sv job_id pid s =
     (case mark_running job_id s of
        Inl x \<Rightarrow> (Inl x, s, [])
      | Inr s1 \<Rightarrow> execute_and_finalize sv job_id pid s1)"

text \<open>
  The \<open>except\<close> block, lines 216 to 224, for the exception \<open>x\<close> and the calls made so
  far. An exception raised in here leaves the handler.
\<close>

definition on_job_error :: "services \<Rightarrow> str \<Rightarrow> error \<Rightarrow> store \<Rightarrow> call list \<Rightarrow> (error + unit) \<times> store \<times> call list" where
  "on_job_error sv job_id x s cs =
     (case jobs s job_id of
        None \<Rightarrow> (Inl (KeyError job_id), s, cs)
      | Some j \<Rightarrow>
          (let s1 = s\<lparr>jobs := (jobs s)(job_id \<mapsto> j\<lparr>status := failed, error := Some (str_of_error x)\<rparr>)\<rparr>
           in case release_monitor sv (length (filter is_stop cs)) job_id s1 of
                (r, s2, cs') \<Rightarrow> (r, s2, cs @ cs')))"

text \<open>\<open>handle_payment_status\<close>, the payment-completion callback.\<close>

definition handle_payment_status :: "services \<Rightarrow> str \<Rightarrow> str \<Rightarrow> store \<Rightarrow> (error + unit) \<times> store \<times> call list" where
  "handle_payment_status sv job_id pid s =
     (case try_job sv job_id pid s of
        (Inr r, s', cs) \<Rightarrow> (Inr (), s', cs)
      | (Inl x, s', cs) \<Rightarrow> on_job_error sv job_id x s' cs)"

text \<open>\<open>get_status\<close>, lines 230 to 261: it refreshes \<open>payment_status\<close> and reports the job.\<close>

definition get_status :: "services \<Rightarrow> str \<Rightarrow> store \<Rightarrow> (http_error + job_status \<times> str option \<times> str option) \<times> store" where
  "get_status sv job_id s =
     (case jobs s job_id of
        None \<Rightarrow> (Inl (HTTPException 404), s)
      | Some j \<Rightarrow>
          (let j' = (if payment_instances s job_id \<noteq> None
                     then j\<lparr>payment_status :=
                            (case check_payment_status sv of
                               Inr st \<Rightarrow> st
                             | Inl (ValueError m) \<Rightarrow> Some (u ''unknown'')
                             | Inl x \<Rightarrow> Some (u ''error''))\<rparr>
                     else j)
           in (Inr (status j', payment_status j', map_option raw (result j')),
               s\<lparr>jobs := (jobs s)(job_id \<mapsto> j')\<rparr>)))"

text \<open>The invariant of the specification on one job.\<close>

definition job_invariant :: "job \<Rightarrow> bool" where
  "job_invariant j = ((result j \<noteq> None) = (status j = completed) \<and> (error j \<noteq> None) = (status j = failed))"

text \<open>
  The stores the handlers can produce: job creation, status queries and the callback of a
  registered monitor, with collaborators that satisfy \<open>ok\<close>.
\<close>

inductive reachable :: "(services \<Rightarrow> bool) \<Rightarrow> store \<Rightarrow> bool" for ok :: "services \<Rightarrow> bool" where
  init: "reachable ok empty_store"
| started: "reachable ok s \<Longrightarrow> ok sv \<Longrightarrow> reachable ok (snd (start_job sv data s))"
| queried: "reachable ok s \<Longrightarrow> ok sv \<Longrightarrow> reachable ok (snd (get_status sv job_id s))"
| running: "reachable ok s \<Longrightarrow> payment_instances s job_id \<noteq> None \<Longrightarrow> mark_running job_id s = Inr s' \<Longrightarrow>
     reachable ok s'"
| called_back: "reachable ok s \<Longrightarrow> ok sv \<Longrightarrow> payment_instances s job_id \<noteq> None \<Longrightarrow>
     reachable ok (fst (snd (handle_payment_status sv job_id pid s)))"

text \<open>A job no handler has finished: it has neither result nor error.\<close>

definition untouched :: "job \<Rightarrow> bool" where
  "untouched j = (result j = None \<and> error j = None \<and> status j \<noteq> completed \<and> status j \<noteq> failed)"

text \<open>
  What holds of the entry of one key: the invariant, and a job whose monitor is still
  registered is unfinished.
\<close>

definition entry_ok :: "store \<Rightarrow> str \<Rightarrow> bool" where
  "entry_ok s k =
     (case jobs s k of
        None \<Rightarrow> payment_instances s k = None
      | Some j \<Rightarrow> job_invariant j \<and> (payment_instances s k \<noteq> None \<longrightarrow> untouched j))"

text \<open>Collaborators whose first \<open>stop_status_monitoring\<close> call returns.\<close>

definition stop_returns :: "services \<Rightarrow> bool" where
  "stop_returns sv = (stop_status_monitoring sv 0 = Inr ())"


section \<open>Sample inputs and specification-level notions\<close>

text \<open>The strings the pattern \<open>\d+@g\.us\<close> matches: one or more digits, then \<open>@g.us\<close>.\<close>

definition matches_group_id :: "str \<Rightarrow> bool" where
  "matches_group_id m = (\<exists>ds. ds \<noteq> [] \<and> list_all is_digit ds \<and> m = ds @ group_suffix)"

text \<open>\<open>m\<close> is a match of the pattern in \<open>s\<close> that starts at the leftmost position of any match.\<close>

definition first_match :: "str \<Rightarrow> str \<Rightarrow> bool" where
  "first_match s m =
     (\<exists>pre post. s = pre @ m @ post \<and> matches_group_id m
        \<and> (\<forall>pre' m' post'. s = pre' @ m' @ post' \<and> matches_group_id m' \<longrightarrow> length pre \<le> length pre'))"

text \<open>
  The truncation as the specification words it: cut at the last white space (of any
  kind) within the first 200 characters. Compared with \<open>truncate_response\<close> below.
\<close>

definition spec_truncate_response :: "str \<Rightarrow> str" where
  "spec_truncate_response response_text =
     (if length response_text > max_response_length
      then (let h = take max_response_length response_text
            in if list_ex is_space h then rev (tl (dropWhile (\<lambda>c. \<not> is_space c) (rev h))) else h)
           @ ellipsis
      else response_text)"

text \<open>The registry after a run of message identifiers, each recorded as the pipeline does.\<close>

definition record_all :: "str option list \<Rightarrow> registry \<Rightarrow> registry" where
  "record_all ids reg = fold (\<lambda>i r. snd (record_message_id i r)) ids reg"

text \<open>Sample message identifiers \<open>m\<close>, \<open>m1\<close>, \<open>m11\<close>, ..., pairwise distinct.\<close>

definition example_id :: "nat \<Rightarrow> str option" where
  "example_id n = Some (u ''m'' @ replicate n 0x31)"

text \<open>Sample collaborators that always succeed.\<close>

definition example_env :: env where
  "example_env = \<lparr>client_ready = True, crew = (\<lambda>i. Inr (u ''ok'')),
     send = (\<lambda>t m r. Inr ()), seen = (\<lambda>m. Inr ())\<rparr>"

text \<open>What \<open>str\<close> prints for a string without quotes, backslashes or control characters.\<close>

definition quoted :: "str \<Rightarrow> str" where
  "quoted s = [0x27] @ s @ [0x27]"

text \<open>
  A sample direct chat message with a given identifier and body; \<open>serialized\<close> is what
  \<open>str\<close> prints for the event.
\<close>

definition example_event :: "str option \<Rightarrow> str \<Rightarrow> webhook" where
  "example_event i b =
     \<lparr>event = Some (u ''message''),
      message_data = \<lparr>msg_id = i, from_field = Some (u ''1@c.us''), to_field = Some (u ''2@c.us''),
                      msg_type = Some (JString (u ''chat'')), body = Some (JString b), sender = None\<rparr>,
      serialized = u ''{'event': 'message', 'payload': {'id': ''
        @ (case i of None \<Rightarrow> u ''None'' | Some m \<Rightarrow> quoted m)
        @ u '', 'from': '1@c.us', 'to': '2@c.us', 'type': 'chat', 'body': '' @ quoted b @ u ''}}''\<rparr>"

text \<open>
  A sample event whose \<open>from\<close> and \<open>to\<close> are internal identifiers and whose text names
  a known group; \<open>serialized\<close> is what \<open>str\<close> prints for it.
\<close>

definition lid_event :: webhook where
  "lid_event =
     \<lparr>event = Some (u ''message''),
      message_data = \<lparr>msg_id = Some (u ''m1''), from_field = Some (u ''111@lid''),
                      to_field = Some (u ''222@lid''), msg_type = Some (JString (u ''chat'')),
                      body = Some (JString (u ''gg ask the nerds'')), sender = None\<rparr>,
      serialized = u ''{'event': 'message', 'payload': {'id': 'm1', 'from': '111@lid', 'to': '222@lid', 'type': 'chat', 'body': 'gg ask the nerds'}}''\<rparr>"

text \<open>Sample collaborators whose task executor raises.\<close>

definition failing_env :: env where
  "failing_env = \<lparr>client_ready = True, crew = (\<lambda>i. Inl (Raised (u ''executor failed''))),
     send = (\<lambda>t m r. Inr ()), seen = (\<lambda>m. Inr ())\<rparr>"

text \<open>A sample job request and collaborators that always succeed.\<close>

definition example_request :: start_job_request where
  "example_request = \<lparr>req_identifier_from_purchaser = u ''buyer-1'',
     req_input_data = [(u ''text'', u ''Write a story'')]\<rparr>"

definition example_services :: services where
  "example_services =
     \<lparr>new_job_id = u ''job-1'',
      create_payment_request = Inr (u ''pay-1''),
      start_status_monitoring = Inr (),
      execute_crew_task = (\<lambda>i. Inr \<lparr>raw = u ''A story'', json_dict = None\<rparr>),
      complete_payment = (\<lambda>p r. Inr ()),
      check_payment_status = Inr (Some (u ''FundsLocked'')),
      stop_status_monitoring = (\<lambda>n. Inr ())\<rparr>"

text \<open>The same collaborators, with a \<open>stop_status_monitoring\<close> that raises.\<close>

definition faulty_stop_services :: services where
  "faulty_stop_services = example_services\<lparr>stop_status_monitoring := (\<lambda>n. Inl (Raised (u ''stop failed'')))\<rparr>"

text \<open>The same collaborators, with a task executor that raises.\<close>

definition faulty_crew_services :: services where
  "faulty_crew_services = example_services\<lparr>execute_crew_task := (\<lambda>i. Inl (Raised (u ''crew failed'')))\<rparr>"

text \<open>A sample event with internal identifiers, no group name and no group identifier.\<close>

definition unmapped_event :: webhook where
  "unmapped_event =
     \<lparr>event = Some (u ''message''),
      message_data = \<lparr>msg_id = Some (u ''m2''), from_field = Some (u ''111@lid''),
                      to_field = Some (u ''222@lid''), msg_type = Some (JString (u ''chat'')),
                      body = Some (JString (u ''gg hi'')), sender = None\<rparr>,
      serialized = u ''{'event': 'message', 'payload': {'id': 'm2', 'from': '111@lid', 'to': '222@lid', 'type': 'chat', 'body': 'gg hi'}}''\<rparr>"

text \<open>
  A sample event with internal identifiers and no group name, whose text holds a group
  identifier.
\<close>

definition group_id_event :: webhook where
  "group_id_event =
     \<lparr>event = Some (u ''message''),
      message_data = \<lparr>msg_id = Some (u ''m6''), from_field = Some (u ''111@lid''),
                      to_field = Some (u ''222@lid''), msg_type = Some (JString (u ''chat'')),
                      body = Some (JString (u ''gg reply in 12345@g.us'')), sender = None\<rparr>,
      serialized = u ''{'event': 'message', 'payload': {'id': 'm6', 'from': '111@lid', 'to': '222@lid', 'type': 'chat', 'body': 'gg reply in 12345@g.us'}}''\<rparr>"

text \<open>A sample event whose \<open>to\<close> is the empty string and whose text names a known group.\<close>

definition empty_to_event :: webhook where
  "empty_to_event =
     \<lparr>event = Some (u ''message''),
      message_data = \<lparr>msg_id = Some (u ''m5''), from_field = Some (u ''111@lid''),
                      to_field = Some [], msg_type = Some (JString (u ''chat'')),
                      body = Some (JString (u ''gg ask the nerds'')), sender = None\<rparr>,
      serialized = u ''{'event': 'message', 'payload': {'id': 'm5', 'from': '111@lid', 'to': ''
        @ quoted [] @ u '', 'type': 'chat', 'body': 'gg ask the nerds'}}''\<rparr>"



text \<open>
  Sample collaborators whose \<open>stop_status_monitoring\<close> raises on the first call of a run
  and returns on the second.
\<close>

definition flaky_stop_services :: services where
  "flaky_stop_services = example_services\<lparr>stop_status_monitoring :=
     (\<lambda>n. if n = 0 then Inl (Raised (u ''stop failed'')) else Inr ())\<rparr>"

section \<open>Properties of the resolver\<close>

lemma contains_sublist: "contains xs ys = sublist xs ys"
  by (induction ys) (simp_all add: sublist_Cons_right)

text \<open>
  C3. The destination is \<open>from\<close> when \<open>from\<close> contains the group suffix, else \<open>to\<close> when
  \<open>to\<close> contains it, else \<open>to\<close>; the three events of the specification resolve to
  \<open>555@g.us\<close>, \<open>555@g.us\<close> and \<open>2@c.us\<close>, also after the remapping stage.
\<close>

theorem resolve_chat_id_priority:
  "resolve_chat_id p =
     (if (\<exists>f. from_field p = Some f \<and> sublist (u ''@g.us'') f) then from_field p
      else if (\<exists>t. to_field p = Some t \<and> sublist (u ''@g.us'') t) then to_field p
      else to_field p)
   \<and> (\<forall>m t b sd s e.
        final_chat_id \<lparr>event = e, message_data = \<lparr>msg_id = m, from_field = Some (u ''555@g.us''),
            to_field = Some (u ''1@c.us''), msg_type = t, body = b, sender = sd\<rparr>, serialized = s\<rparr> = Some (u ''555@g.us'')
      \<and> final_chat_id \<lparr>event = e, message_data = \<lparr>msg_id = m, from_field = Some (u ''1@c.us''),
            to_field = Some (u ''555@g.us''), msg_type = t, body = b, sender = sd\<rparr>, serialized = s\<rparr> = Some (u ''555@g.us'')
      \<and> final_chat_id \<lparr>event = e, message_data = \<lparr>msg_id = m, from_field = Some (u ''1@c.us''),
            to_field = Some (u ''2@c.us''), msg_type = t, body = b, sender = sd\<rparr>, serialized = s\<rparr> = Some (u ''2@c.us''))"
proof -
  have a: "\<forall>f. is_group_field (Some f) = sublist (u ''@g.us'') f"
    by (auto simp: is_group_field_def group_suffix_def contains_sublist u_def)
  have b: "\<not> is_group_field None"
    by (simp add: is_group_field_def)
  have g: "is_group_field (Some (u ''555@g.us''))"
    by (simp add: is_group_field_def group_suffix_def u_def)
  have c1: "\<not> is_group_field (Some (u ''1@c.us''))"
    by (simp add: is_group_field_def group_suffix_def u_def)
  have c2: "\<not> is_group_field (Some (u ''2@c.us''))"
    by (simp add: is_group_field_def group_suffix_def u_def)
  have n1: "\<not> needs_mapping (Some (u ''555@g.us''))"
    by (simp add: needs_mapping_def endswith_def group_suffix_def individual_suffix_def u_def suffix_Cons)
  have n2: "\<not> needs_mapping (Some (u ''2@c.us''))"
    by (simp add: needs_mapping_def endswith_def group_suffix_def individual_suffix_def u_def suffix_Cons)
  have r: "resolve_chat_id p =
     (if (\<exists>f. from_field p = Some f \<and> sublist (u ''@g.us'') f) then from_field p
      else if (\<exists>t. to_field p = Some t \<and> sublist (u ''@g.us'') t) then to_field p
      else to_field p)"
    using a b by (cases "from_field p"; cases "to_field p") (simp_all add: resolve_chat_id_def)
  have e: "\<forall>m t b sd s e.
        final_chat_id \<lparr>event = e, message_data = \<lparr>msg_id = m, from_field = Some (u ''555@g.us''),
            to_field = Some (u ''1@c.us''), msg_type = t, body = b, sender = sd\<rparr>, serialized = s\<rparr> = Some (u ''555@g.us'')
      \<and> final_chat_id \<lparr>event = e, message_data = \<lparr>msg_id = m, from_field = Some (u ''1@c.us''),
            to_field = Some (u ''555@g.us''), msg_type = t, body = b, sender = sd\<rparr>, serialized = s\<rparr> = Some (u ''555@g.us'')
      \<and> final_chat_id \<lparr>event = e, message_data = \<lparr>msg_id = m, from_field = Some (u ''1@c.us''),
            to_field = Some (u ''2@c.us''), msg_type = t, body = b, sender = sd\<rparr>, serialized = s\<rparr> = Some (u ''2@c.us'')"
    by (simp add: resolve_chat_id_def final_chat_id_def g c1 c2 n1 n2)
  from r e show ?thesis by blast
qed


lemma is_digit_ascii: "c < 0x660 \<Longrightarrow> is_digit c = (0x30 \<le> c \<and> c \<le> 0x39)"
  by (auto simp: is_digit_def decimal_ranges_def)

lemma group_suffix_head: "group_suffix = 0x40 # u ''g.us''" "\<not> is_digit 0x40"
  by (simp_all add: group_suffix_def u_def is_digit_ascii)

lemma digits_then_suffix:
  assumes "list_all is_digit ds"
  shows "takeWhile is_digit (ds @ group_suffix @ post) = ds"
    and "dropWhile is_digit (ds @ group_suffix @ post) = group_suffix @ post"
  using assms by (induction ds) (simp_all add: group_suffix_head)

lemma match_at_head:
  "(\<exists>post. s = m @ post \<and> matches_group_id m) \<longleftrightarrow>
     (s \<noteq> [] \<and> is_digit (hd s) \<and> prefix group_suffix (dropWhile is_digit s)
      \<and> m = takeWhile is_digit s @ group_suffix)"
proof
  assume "\<exists>post. s = m @ post \<and> matches_group_id m"
  then obtain post ds where s: "s = ds @ group_suffix @ post" and ds: "ds \<noteq> []" "list_all is_digit ds"
    and m: "m = ds @ group_suffix"
    by (auto simp: matches_group_id_def)
  from ds have "is_digit (hd ds)" by (cases ds) simp_all
  with s ds m digits_then_suffix[OF ds(2), of post]
  show "s \<noteq> [] \<and> is_digit (hd s) \<and> prefix group_suffix (dropWhile is_digit s)
      \<and> m = takeWhile is_digit s @ group_suffix"
    by simp
next
  assume a: "s \<noteq> [] \<and> is_digit (hd s) \<and> prefix group_suffix (dropWhile is_digit s)
      \<and> m = takeWhile is_digit s @ group_suffix"
  then obtain post where p: "dropWhile is_digit s = group_suffix @ post" by (auto simp: prefix_def)
  have "s = takeWhile is_digit s @ dropWhile is_digit s" by simp
  with p have s: "s = (takeWhile is_digit s @ group_suffix) @ post" by simp
  from a have "takeWhile is_digit s \<noteq> []" by (cases s) simp_all
  moreover have "list_all is_digit (takeWhile is_digit s)"
    by (auto simp: list_all_iff dest: set_takeWhileD)
  ultimately have "matches_group_id (takeWhile is_digit s @ group_suffix)"
    unfolding matches_group_id_def by blast
  with s a show "\<exists>post. s = m @ post \<and> matches_group_id m" by metis
qed

lemma find_group_id_None:
  "find_group_id s = None \<Longrightarrow> \<not> (\<exists>pre m post. s = pre @ m @ post \<and> matches_group_id m)"
proof (induction s)
  case Nil
  then show ?case by (auto simp: matches_group_id_def)
next
  case (Cons c cs)
  from Cons.prems have h: "\<not> (is_digit c \<and> prefix group_suffix (dropWhile is_digit (c # cs)))"
    and t: "find_group_id cs = None"
    by (auto split: if_splits)
  show ?case
  proof
    assume "\<exists>pre m post. c # cs = pre @ m @ post \<and> matches_group_id m"
    then obtain pre m post where e: "c # cs = pre @ m @ post" and m: "matches_group_id m" by blast
    show False
    proof (cases pre)
      case Nil
      with e m have "\<exists>post. c # cs = m @ post \<and> matches_group_id m" by auto
      with h show False unfolding match_at_head by (auto split: if_splits)
    next
      case (Cons a pre')
      with e have "cs = pre' @ m @ post" by simp
      with m Cons.IH[OF t] show False by blast
    qed
  qed
qed

lemma find_group_id_first:
  "find_group_id s = Some m \<Longrightarrow> first_match s m"
proof (induction s)
  case Nil
  then show ?case by simp
next
  case (Cons c cs)
  show ?case
  proof (cases "is_digit c \<and> prefix group_suffix (dropWhile is_digit (c # cs))")
    case True
    with Cons.prems have m: "m = takeWhile is_digit (c # cs) @ group_suffix"
      by (auto split: if_splits)
    with True have "\<exists>post. c # cs = m @ post \<and> matches_group_id m"
      unfolding match_at_head by (auto split: if_splits)
    then obtain post where "c # cs = [] @ m @ post" "matches_group_id m" by auto
    then show ?thesis unfolding first_match_def by (metis le0 list.size(3))
  next
    case False
    with Cons.prems have t: "find_group_id cs = Some m" by (auto split: if_splits)
    from Cons.IH[OF t] obtain pre post where e: "cs = pre @ m @ post" and mm: "matches_group_id m"
      and least: "\<And>pre' m' post'. cs = pre' @ m' @ post' \<Longrightarrow> matches_group_id m' \<Longrightarrow> length pre \<le> length pre'"
      unfolding first_match_def by blast
    have "length (c # pre) \<le> length pre'"
      if "c # cs = pre' @ m' @ post'" "matches_group_id m'" for pre' m' post'
    proof (cases pre')
      case Nil
      with that have "\<exists>post. c # cs = m' @ post \<and> matches_group_id m'" by auto
      with False show ?thesis unfolding match_at_head by (auto split: if_splits)
    next
      case (Cons a p)
      with that have "cs = p @ m' @ post'" by simp
      from least[OF this that(2)] Cons show ?thesis by simp
    qed
    moreover from e have "c # cs = (c # pre) @ m @ post" by simp
    ultimately show ?thesis using mm unfolding first_match_def by blast
  qed
qed

lemma first_match_unique:
  assumes "first_match s m" "first_match s m'"
  shows "m = m'"
proof -
  from assms(1) obtain pre post where a: "s = pre @ m @ post" "matches_group_id m"
    and la: "\<And>p x q. s = p @ x @ q \<Longrightarrow> matches_group_id x \<Longrightarrow> length pre \<le> length p"
    unfolding first_match_def by blast
  from assms(2) obtain pre' post' where b: "s = pre' @ m' @ post'" "matches_group_id m'"
    and lb: "\<And>p x q. s = p @ x @ q \<Longrightarrow> matches_group_id x \<Longrightarrow> length pre' \<le> length p"
    unfolding first_match_def by blast
  from la[OF b] lb[OF a] have "length pre = length pre'" by simp
  with a(1) b(1) have r: "m @ post = m' @ post'" by (metis append_eq_append_conv)
  let ?r = "m @ post"
  from a(2) have "\<exists>q. ?r = m @ q \<and> matches_group_id m" by blast
  then have 1: "m = takeWhile is_digit ?r @ group_suffix" unfolding match_at_head by simp
  from b(2) r have "\<exists>q. ?r = m' @ q \<and> matches_group_id m'" by auto
  then have 2: "m' = takeWhile is_digit ?r @ group_suffix" unfolding match_at_head by simp
  from 1 2 show ?thesis by simp
qed

lemma fst_map_chat_id: "fst (map_chat_id w) = final_chat_id w"
  by (simp add: map_chat_id_def final_chat_id_def Let_def split: prod.splits)

text \<open>
  C7, as amended. A resolved identifier that is present, not empty and ends with neither
  \<open>@c.us\<close> nor \<open>@g.us\<close> is replaced by the identifier of the first known group whose
  lower-cased name occurs in the lower-cased serialized event; else by the first match
  of the pattern \<open>\d+@g\.us\<close> in the serialized event, where \<open>\d\<close> is any Unicode decimal
  digit; else it is kept and a warning is logged. The mapping returns a value in every
  case.
\<close>

theorem remap_priority:
  assumes "resolve_chat_id (message_data w) = Some c" and "c \<noteq> []"
    and "\<not> endswith c individual_suffix" and "\<not> endswith c group_suffix"
  shows "fst (map_chat_id w) = final_chat_id w
    \<and> (\<forall>n g. find (\<lambda>(n, g). sublist (lower n) (lower (serialized w))) known_groups = Some (n, g) \<longrightarrow>
          final_chat_id w = Some g)
    \<and> (find (\<lambda>(n, g). sublist (lower n) (lower (serialized w))) known_groups = None
         \<and> (\<exists>pre m post. serialized w = pre @ m @ post \<and> matches_group_id m) \<longrightarrow>
          (\<exists>m. first_match (serialized w) m \<and> final_chat_id w = Some m))
    \<and> (find (\<lambda>(n, g). sublist (lower n) (lower (serialized w))) known_groups = None
         \<and> \<not> (\<exists>pre m post. serialized w = pre @ m @ post \<and> matches_group_id m) \<longrightarrow>
          final_chat_id w = Some c
          \<and> Log WARNING ''Could not map WAHA internal ID to real group ID'' \<in> set (snd (map_chat_id w)))"
proof -
  let ?s = "serialized w"
  let ?f = "find (\<lambda>(n, g). sublist (lower n) (lower ?s)) known_groups"
  have fc: "find (\<lambda>(n, g). contains (lower n) (lower ?s)) known_groups = ?f"
    by (simp add: contains_sublist)
  from assms have nm: "needs_mapping (resolve_chat_id (message_data w))"
    by (simp add: needs_mapping_def)
  have final: "final_chat_id w = Some (fst (map_waha_internal_id_to_group_id c ?s))"
    using nm assms(1) by (simp add: final_chat_id_def)
  have logs: "snd (map_chat_id w) = map (\<lambda>(l, m). Log l m) (snd (map_waha_internal_id_to_group_id c ?s))"
    using nm assms(1) by (simp add: map_chat_id_def split: prod.splits)
  have a: "final_chat_id w = Some g" if "?f = Some (n, g)" for n g
    using that final fc by (simp add: map_waha_internal_id_to_group_id_def)
  have b: "\<exists>m. first_match ?s m \<and> final_chat_id w = Some m"
    if "?f = None" "\<exists>pre m post. ?s = pre @ m @ post \<and> matches_group_id m"
  proof -
    from that(2) find_group_id_None[of ?s] obtain m where m: "find_group_id ?s = Some m"
      by (cases "find_group_id ?s") auto
    with that(1) final fc have "final_chat_id w = Some m"
      by (simp add: map_waha_internal_id_to_group_id_def)
    with find_group_id_first[OF m] show ?thesis by blast
  qed
  have c: "final_chat_id w = Some c
          \<and> Log WARNING ''Could not map WAHA internal ID to real group ID'' \<in> set (snd (map_chat_id w))"
    if "?f = None" "\<not> (\<exists>pre m post. ?s = pre @ m @ post \<and> matches_group_id m)"
  proof -
    have "find_group_id ?s = None"
    proof (cases "find_group_id ?s")
      case None
      then show ?thesis .
    next
      case (Some m)
      from find_group_id_first[OF Some] that(2) show ?thesis
        unfolding first_match_def by blast
    qed
    with that(1) final logs fc show ?thesis
      by (simp add: map_waha_internal_id_to_group_id_def)
  qed
  from a b c fst_map_chat_id show ?thesis by blast
qed

text \<open>
  C7 as stated fails for an empty identifier: it ends with neither suffix and the event
  names a known group, to whose identifier the mapping function would map it, but the
  guard of line 450 asks for a non-empty identifier and the identifier stays empty.
\<close>

theorem empty_identifier_not_remapped:
  "resolve_chat_id (message_data empty_to_event) = Some []
   \<and> \<not> endswith [] individual_suffix \<and> \<not> endswith [] group_suffix
   \<and> fst (map_waha_internal_id_to_group_id [] (serialized empty_to_event)) = u ''120363422170611614@g.us''
   \<and> final_chat_id empty_to_event = Some []
   \<and> fst (map_chat_id empty_to_event) = Some []"
proof -
  have r: "resolve_chat_id (message_data empty_to_event) = Some []"
    by (simp add: empty_to_event_def resolve_chat_id_def is_group_field_def group_suffix_def u_def)
  have e: "\<not> endswith [] individual_suffix" "\<not> endswith [] group_suffix"
    by (simp_all add: endswith_def individual_suffix_def group_suffix_def u_def)
  have m: "fst (map_waha_internal_id_to_group_id [] (serialized empty_to_event)) = u ''120363422170611614@g.us''"
    by (simp add: map_waha_internal_id_to_group_id_def known_groups_def empty_to_event_def quoted_def
        lower_def lower_char_def u_def)
  have f: "final_chat_id empty_to_event = Some []"
    by (simp add: final_chat_id_def r needs_mapping_def)
  have c: "fst (map_chat_id empty_to_event) = Some []"
    by (simp add: map_chat_id_def r needs_mapping_def)
  from r e m f c show ?thesis by blast
qed

section \<open>Properties of the response shaping\<close>

lemma rsplit_head_no_space: "0x20 \<notin> set s \<Longrightarrow> rsplit_head s = s"
  by (simp add: rsplit_head_def)

lemma rsplit_head_space:
  assumes "0x20 \<in> set s"
  shows "\<exists>b. s = rsplit_head s @ 0x20 # b \<and> 0x20 \<notin> set b"
proof -
  let ?P = "\<lambda>c::nat. c \<noteq> 0x20"
  let ?d = "dropWhile ?P (rev s)"
  let ?t = "takeWhile ?P (rev s)"
  from assms have ne: "?d \<noteq> []" by (auto simp: dropWhile_eq_Nil_conv)
  then have "\<not> ?P (hd ?d)" by (rule hd_dropWhile)
  with ne have d: "?d = 0x20 # tl ?d" by (cases ?d) simp_all
  have "rev s = ?t @ ?d" by simp
  with d have "rev s = ?t @ 0x20 # tl ?d" by simp
  then have "rev (rev s) = rev (?t @ 0x20 # tl ?d)" by (rule arg_cong)
  then have s: "s = rev (tl ?d) @ 0x20 # rev ?t" by simp
  have "0x20 \<notin> set (rev ?t)" by (auto dest: set_takeWhileD)
  moreover from assms have "rsplit_head s = rev (tl ?d)" by (simp add: rsplit_head_def)
  ultimately show ?thesis using s by metis
qed

lemma truncate_short: "length t \<le> 200 \<Longrightarrow> truncate_response t = t"
  by (simp add: truncate_response_def max_response_length_def)

lemma truncate_long:
  assumes "length t > 200"
  shows "\<exists>k\<le>200. truncate_response t = take k t @ ellipsis
      \<and> (0x20 \<notin> set (take 200 t) \<longrightarrow> k = 200)
      \<and> (0x20 \<in> set (take 200 t) \<longrightarrow> t ! k = 0x20 \<and> 0x20 \<notin> set (drop (Suc k) (take 200 t)))"
proof (cases "0x20 \<in> set (take 200 t)")
  case False
  with assms show ?thesis
    by (simp add: truncate_response_def max_response_length_def rsplit_head_no_space)
next
  case True
  let ?h = "take 200 t"
  from rsplit_head_space[OF True] obtain b where h: "?h = rsplit_head ?h @ 0x20 # b" and b: "0x20 \<notin> set b"
    by blast
  let ?k = "length (rsplit_head ?h)"
  from h have "length ?h = ?k + Suc (length b)" by (metis length_append length_Cons)
  with assms have k: "?k < 200" by simp
  from h have "take ?k ?h = rsplit_head ?h" by (metis append_eq_conv_conj)
  with k have tk: "take ?k t = rsplit_head ?h" by (simp add: min_def)
  from h have "?h ! ?k = 0x20" by (metis nth_append_length)
  with k have nk: "t ! ?k = 0x20" by simp
  have "drop (Suc ?k) (rsplit_head ?h @ 0x20 # b) = b" by simp
  with h have "drop (Suc ?k) ?h = b" by simp
  with b have db: "0x20 \<notin> set (drop (Suc ?k) ?h)" by simp
  from assms tk have "truncate_response t = take ?k t @ ellipsis"
    by (simp add: truncate_response_def max_response_length_def)
  with k nk db True show ?thesis by (intro exI[of _ ?k]) simp
qed

lemma dropWhile_keeps_tail:
  assumes "\<not> P y"
  shows "\<exists>zs. dropWhile P (xs @ y # ys) = zs @ y # ys"
proof (induction xs)
  case Nil
  from assms show ?case by simp
next
  case (Cons x xs)
  then show ?case by (cases "P x") (auto intro: exI[of _ "x # xs"])
qed

lemma dot_kept: "\<not> is_space 0x2E" "\<not> is_leading_emoji 0x2E" "ellipsis = [0x2E, 0x2E, 0x2E]"
  by (simp_all add: is_space_def is_leading_emoji_def ellipsis_def u_def)

lemma strip_keeps_ellipsis: "\<exists>zs. strip (xs @ ellipsis) = zs @ ellipsis"
proof -
  from dropWhile_keeps_tail[of is_space "0x2E" xs "[0x2E, 0x2E]"] dot_kept
  obtain zs where z: "dropWhile is_space (xs @ ellipsis) = zs @ ellipsis" by auto
  have "dropWhile is_space (rev (zs @ ellipsis)) = rev (zs @ ellipsis)"
    by (simp add: dot_kept)
  with z show ?thesis by (simp add: strip_def)
qed

lemma shape_long_ends_with_ellipsis:
  assumes "length t > 200"
  shows "suffix (ellipsis @ u ''_'') (shape_response t)"
proof -
  from assms obtain a where "truncate_response t = a @ ellipsis"
    by (auto simp: truncate_response_def max_response_length_def)
  with strip_keeps_ellipsis[of a] obtain zs where "strip (truncate_response t) = zs @ ellipsis"
    by auto
  moreover from dropWhile_keeps_tail[of is_leading_emoji "0x2E" zs "[0x2E, 0x2E]"] dot_kept
  obtain ys where "dropWhile is_leading_emoji (zs @ ellipsis) = ys @ ellipsis" by auto
  ultimately have "shape_response t = (robot @ u '' _'' @ ys) @ ellipsis @ u ''_''"
    by (simp add: shape_response_def format_response_def)
  then show ?thesis unfolding suffix_def by blast
qed

lemma strip_clean:
  assumes "t \<noteq> []" "\<not> is_space (hd t)" "\<not> is_space (last t)"
  shows "strip t = t"
proof -
  from assms have 1: "dropWhile is_space t = t" by (cases t) simp_all
  from assms(1) have "t = butlast t @ [last t]" by simp
  then have r: "rev t = last t # rev (butlast t)" by (metis rev.simps(2) rev_rev_ident rev_swap)
  from assms(3) have "dropWhile is_space (last t # rev (butlast t)) = last t # rev (butlast t)"
    by simp
  then have "dropWhile is_space (rev t) = rev t" by (simp only: r)
  with 1 show ?thesis by (simp add: strip_def)
qed

lemma dropWhile_run:
  assumes "list_all P run" "rest = [] \<or> \<not> P (hd rest)"
  shows "dropWhile P (run @ rest) = rest"
proof -
  from assms(2) have "dropWhile P rest = rest" by (cases rest) auto
  with assms(1) show ?thesis by (simp add: dropWhile_append list_all_iff)
qed

text \<open>
  C6, as amended. The shaped response is the robot marker, a space and an underscore, a
  body, and an underscore. The body is an end piece of the text without its surrounding
  white space, and it starts with no white space and no pictograph of the pattern's
  ranges. Let \<open>emoji\<close> be any set of characters that holds the pictographs of the
  pattern's ranges: when the text without its surrounding white space is a run of white
  space and pictographs of these ranges, followed by nothing or by a remainder that
  starts with no emoji and no white space, the body is that remainder. A text of at most
  200 characters is not truncated, and one that starts with no emoji and has no white
  space at either end is wrapped as it is. A longer one is cut to its first \<open>k \<le> 200\<close>
  characters followed by \<open>...\<close>: at the last space character (U+0020) among the first
  200 if there is one, else at 200; the shaped response then ends with \<open>...\<close> and the
  closing underscore.
\<close>

theorem response_shaping:
  "(\<exists>b. shape_response t = robot @ u '' _'' @ b @ u ''_''
        \<and> suffix b (strip (truncate_response t))
        \<and> (b = [] \<or> \<not> is_leading_emoji (hd b)))
   \<and> ((\<forall>c. is_leading_emoji c \<longrightarrow> emoji c \<or> is_space c)
        \<and> strip (truncate_response t) = run @ rest \<and> list_all is_leading_emoji run
        \<and> (rest = [] \<or> \<not> emoji (hd rest) \<and> \<not> is_space (hd rest)) \<longrightarrow>
        shape_response t = robot @ u '' _'' @ rest @ u ''_'')
   \<and> (length t \<le> 200 \<longrightarrow> truncate_response t = t)
   \<and> ((\<forall>c. is_leading_emoji c \<longrightarrow> emoji c \<or> is_space c)
        \<and> length t \<le> 200 \<and> t \<noteq> [] \<and> \<not> emoji (hd t) \<and> \<not> is_space (hd t) \<and> \<not> is_space (last t) \<longrightarrow>
        shape_response t = robot @ u '' _'' @ t @ u ''_'')
   \<and> (length t > 200 \<longrightarrow>
        (\<exists>k\<le>200. truncate_response t = take k t @ ellipsis
           \<and> (0x20 \<notin> set (take 200 t) \<longrightarrow> k = 200)
           \<and> (0x20 \<in> set (take 200 t) \<longrightarrow> t ! k = 0x20 \<and> 0x20 \<notin> set (drop (Suc k) (take 200 t))))
        \<and> suffix (ellipsis @ u ''_'') (shape_response t))"
proof -
  let ?s = "strip (truncate_response t)"
  let ?b = "dropWhile is_leading_emoji ?s"
  have a: "shape_response t = robot @ u '' _'' @ ?b @ u ''_''"
    by (simp add: shape_response_def format_response_def)
  have "?s = takeWhile is_leading_emoji ?s @ ?b" by simp
  then have sb: "suffix ?b ?s" unfolding suffix_def by blast
  have hb: "?b = [] \<or> \<not> is_leading_emoji (hd ?b)"
    using hd_dropWhile[of is_leading_emoji ?s] by blast
  from a sb hb have 1: "\<exists>b. shape_response t = robot @ u '' _'' @ b @ u ''_''
        \<and> suffix b ?s \<and> (b = [] \<or> \<not> is_leading_emoji (hd b))"
    by blast
  have 2: "shape_response t = robot @ u '' _'' @ rest @ u ''_''"
    if "\<forall>c. is_leading_emoji c \<longrightarrow> emoji c \<or> is_space c"
      "?s = run @ rest" "list_all is_leading_emoji run"
      "rest = [] \<or> \<not> emoji (hd rest) \<and> \<not> is_space (hd rest)"
  proof -
    from that(1,4) have "rest = [] \<or> \<not> is_leading_emoji (hd rest)" by blast
    with that(3) have "dropWhile is_leading_emoji (run @ rest) = rest" by (rule dropWhile_run)
    with that(2) a show ?thesis by simp
  qed
  have 3: "shape_response t = robot @ u '' _'' @ t @ u ''_''"
    if "\<forall>c. is_leading_emoji c \<longrightarrow> emoji c \<or> is_space c"
      "length t \<le> 200" "t \<noteq> []" "\<not> emoji (hd t)" "\<not> is_space (hd t)" "\<not> is_space (last t)"
  proof -
    from that have "strip t = t" by (simp add: strip_clean)
    moreover from that(1,4,5) have "\<not> is_leading_emoji (hd t)" by blast
    with that(3) have "dropWhile is_leading_emoji t = t" by (cases t) simp_all
    ultimately show ?thesis using that(2) by (simp add: a truncate_short)
  qed
  from 1 2 3 truncate_short truncate_long shape_long_ends_with_ellipsis show ?thesis by blast
qed

lemma replicate_clean:
  assumes "\<not> is_space x" "0 < n"
  shows "strip (replicate n x @ ellipsis) = replicate n x @ ellipsis"
proof -
  from assms have "hd (replicate n x @ ellipsis) = x" by (cases n) simp_all
  with assms show ?thesis
    by (intro strip_clean) (simp_all add: dot_kept)
qed

theorem response_shaping_witness:
  "length (replicate 250 (0x61::nat)) > 200
   \<and> shape_response (replicate 250 0x61) = robot @ u '' _'' @ replicate 200 0x61 @ ellipsis @ u ''_''
   \<and> shape_response (u ''Hello there'') = robot @ u '' _Hello there_''
   \<and> shape_response ([0x1F600, 0x20] @ u ''Hi'') = robot @ u '' _Hi_''"
proof -
  have em: "\<forall>c. is_leading_emoji c \<longrightarrow> is_leading_emoji c \<or> is_space c" by blast
  let ?t = "replicate 250 (0x61::nat)"
  have l: "length ?t > 200" by simp
  have s: "0x20 \<notin> set (take 200 ?t)" by simp
  from response_shaping[where t = ?t] l s have "truncate_response ?t = take 200 ?t @ ellipsis" by auto
  then have tr: "truncate_response ?t = replicate 200 0x61 @ ellipsis" by simp
  have na: "\<not> is_space 0x61" "\<not> is_leading_emoji 0x61"
    by (simp_all add: is_space_def is_leading_emoji_def)
  then have st: "strip (truncate_response ?t) = [] @ (replicate 200 0x61 @ ellipsis)"
    by (simp add: tr replicate_clean)
  have hr: "hd (replicate 200 (0x61::nat) @ ellipsis) = 0x61" by (simp add: numeral_eq_Suc)
  from response_shaping[where t = ?t and run = "[]" and rest = "replicate 200 0x61 @ ellipsis"
      and emoji = is_leading_emoji]
  have "(\<forall>c. is_leading_emoji c \<longrightarrow> is_leading_emoji c \<or> is_space c)
        \<and> strip (truncate_response ?t) = [] @ (replicate 200 0x61 @ ellipsis) \<and> list_all is_leading_emoji []
        \<and> (replicate 200 (0x61::nat) @ ellipsis = []
             \<or> \<not> is_leading_emoji (hd (replicate 200 (0x61::nat) @ ellipsis))
               \<and> \<not> is_space (hd (replicate 200 (0x61::nat) @ ellipsis))) \<longrightarrow>
        shape_response ?t = robot @ u '' _'' @ (replicate 200 0x61 @ ellipsis) @ u ''_''"
    by blast
  with st hr na have long: "shape_response ?t = robot @ u '' _'' @ replicate 200 0x61 @ ellipsis @ u ''_''"
    by simp
  let ?h = "u ''Hello there''"
  from response_shaping[where t = ?h and emoji = is_leading_emoji]
  have "(\<forall>c. is_leading_emoji c \<longrightarrow> is_leading_emoji c \<or> is_space c)
        \<and> length ?h \<le> 200 \<and> ?h \<noteq> [] \<and> \<not> is_leading_emoji (hd ?h) \<and> \<not> is_space (hd ?h)
        \<and> \<not> is_space (last ?h) \<longrightarrow>
        shape_response ?h = robot @ u '' _'' @ ?h @ u ''_''"
    by blast
  moreover have "length ?h \<le> 200 \<and> ?h \<noteq> [] \<and> \<not> is_leading_emoji (hd ?h) \<and> \<not> is_space (hd ?h)
        \<and> \<not> is_space (last ?h)"
    by (simp add: u_def is_space_def is_leading_emoji_def)
  ultimately have "shape_response ?h = robot @ u '' _'' @ ?h @ u ''_''" using em by blast
  then have short: "shape_response (u ''Hello there'') = robot @ u '' _Hello there_''"
    by (simp add: u_def)
  let ?e = "[0x1F600, 0x20] @ u ''Hi''"
  have se: "strip (truncate_response ?e) = [0x1F600, 0x20] @ u ''Hi''"
    by (simp add: truncate_response_def max_response_length_def strip_def is_space_def u_def)
  have re: "list_all is_leading_emoji [0x1F600, 0x20]"
    by (simp add: is_leading_emoji_def is_space_def)
  have he: "u ''Hi'' = [] \<or> \<not> is_leading_emoji (hd (u ''Hi'')) \<and> \<not> is_space (hd (u ''Hi''))"
    by (simp add: u_def is_space_def is_leading_emoji_def)
  from response_shaping[where t = ?e and run = "[0x1F600, 0x20]" and rest = "u ''Hi''"
      and emoji = is_leading_emoji] em se re he
  have "shape_response ?e = robot @ u '' _'' @ u ''Hi'' @ u ''_''" by blast
  then have emo: "shape_response ([0x1F600, 0x20] @ u ''Hi'') = robot @ u '' _Hi_''"
    by (simp add: u_def)
  from l long short emo show ?thesis by blast
qed

text \<open>
  C6 as stated fails in three places. A text of 250 characters without a space, whose
  character 100 is a line feed, is cut at 200, in the middle of the second word, where
  the specification's wording cuts at the line feed. The short text \<open>Hi there\<close> with a
  space at its end loses that space, so it is not wrapped unmodified. And the star
  U+2B50, which is outside the pattern's ranges, stays in front of the text.
\<close>

theorem shaping_differs_from_claim:
  "truncate_response (replicate 100 0x61 @ [0x0A] @ replicate 149 0x62)
     = replicate 100 0x61 @ [0x0A] @ replicate 99 0x62 @ ellipsis
   \<and> spec_truncate_response (replicate 100 0x61 @ [0x0A] @ replicate 149 0x62)
     = replicate 100 0x61 @ ellipsis
   \<and> is_space 0x0A
   \<and> shape_response (u ''Hi there '') = robot @ u '' _Hi there_''
   \<and> shape_response (u ''Hi there '') \<noteq> robot @ u '' _'' @ u ''Hi there '' @ u ''_''
   \<and> shape_response ([0x2B50] @ u '' hi'') = robot @ u '' _'' @ [0x2B50] @ u '' hi_''"
proof -
  let ?t = "replicate 100 (0x61::nat) @ [0x0A] @ replicate 149 0x62"
  have h: "take 200 ?t = replicate 100 0x61 @ [0x0A] @ replicate 99 0x62" by simp
  have a: "truncate_response ?t = replicate 100 0x61 @ [0x0A] @ replicate 99 0x62 @ ellipsis"
    by (simp add: truncate_response_def max_response_length_def h rsplit_head_def)
  have sp: "is_space 0x0A" "\<not> is_space 0x62" by (simp_all add: is_space_def)
  have ex: "list_ex is_space (replicate 100 0x61 @ [0x0A] @ replicate 99 0x62)"
    using sp by (simp add: list_ex_iff)
  have d: "dropWhile (\<lambda>c. \<not> is_space c) (rev (replicate 100 (0x61::nat) @ [0x0A] @ replicate 99 0x62))
             = 0x0A # replicate 100 0x61"
  proof -
    have "dropWhile (\<lambda>c. \<not> is_space c) (replicate 99 (0x62::nat) @ 0x0A # replicate 100 0x61)
            = dropWhile (\<lambda>c. \<not> is_space c) (0x0A # replicate 100 0x61)"
      using sp by (intro dropWhile_append2) simp
    with sp show ?thesis by simp
  qed
  have b: "spec_truncate_response ?t = replicate 100 0x61 @ ellipsis"
    using d sp by (simp add: spec_truncate_response_def max_response_length_def h Let_def)
  have c: "shape_response (u ''Hi there '') = robot @ u '' _Hi there_''"
    by (simp add: shape_response_def format_response_def truncate_response_def
        max_response_length_def strip_def is_space_def is_leading_emoji_def u_def)
  have c': "robot @ u '' _Hi there_'' \<noteq> robot @ u '' _'' @ u ''Hi there '' @ u ''_''"
    by (simp add: u_def)
  have e: "shape_response ([0x2B50] @ u '' hi'') = robot @ u '' _'' @ [0x2B50] @ u '' hi_''"
    by (simp add: shape_response_def format_response_def truncate_response_def
        max_response_length_def strip_def is_space_def is_leading_emoji_def u_def)
  from a b sp(1) c c' e show ?thesis by simp
qed

section \<open>Properties of the webhook pipeline\<close>

lemma try_mark_as_read_warns:
  "try_mark_as_read e message_id chat_id = [Log WARNING ''Could not mark as read'']"
  by (simp add: try_mark_as_read_def mark_as_read_def)

lemma respond_executes:
  "filter is_execute (snd (respond e c m i)) = [Execute i]"
  by (simp add: respond_def Let_def split: sum.splits)

lemma respond_starts: "\<exists>post. snd (respond e c m i) = Execute i # post"
  by (simp add: respond_def Let_def split: sum.splits)

lemma respond_no_post_seen: "x \<in> set (snd (respond e c m i)) \<Longrightarrow> \<not> is_post_seen x"
  by (auto simp: respond_def Let_def split: sum.splits)

lemma map_chat_id_logs:
  "x \<in> set (snd (map_chat_id w)) \<Longrightarrow> \<not> is_execute x \<and> \<not> is_send x \<and> \<not> is_post_seen x"
  by (auto simp: map_chat_id_def map_waha_internal_id_to_group_id_def Let_def
      split: if_splits option.splits prod.splits)

lemma on_error_no_execute: "filter is_execute (on_error e w) = []"
  by (simp add: on_error_def Let_def split: sum.splits)

lemma on_error_no_post_seen: "x \<in> set (on_error e w) \<Longrightarrow> \<not> is_post_seen x"
  by (auto simp: on_error_def Let_def split: sum.splits if_splits)

lemma sender_name_ok: "(sender_name p = Inr ()) = (sender p \<in> {None, Some JObject})"
  by (simp add: sender_name_def split: option.splits json.splits)

lemma debug_log_ok:
  "(debug_log p = Inr ()) = ((\<exists>t. message_text p = JString t) \<or> message_text p = JArray)"
  by (simp add: debug_log_def split: json.splits)

lemma record_message_id_fst: "fst (record_message_id i reg) = (i |\<in>| reg)"
  by (simp add: record_message_id_def Let_def)

lemma resolve_stage_reached:
  "(resolve_stage w reg = Reached reg' c logs) =
     (msg_id (message_data w) |\<notin>| reg \<and> sender_name (message_data w) = Inr ()
      \<and> debug_log (message_data w) = Inr ()
      \<and> reg' = snd (record_message_id (msg_id (message_data w)) reg) \<and> map_chat_id w = (c, logs))"
proof -
  obtain d r where rec: "record_message_id (msg_id (message_data w)) reg = (d, r)"
    by (cases "record_message_id (msg_id (message_data w)) reg")
  with record_message_id_fst[of "msg_id (message_data w)" reg]
  have d: "d = (msg_id (message_data w) |\<in>| reg)" by simp
  show ?thesis
    using rec d
    by (cases d; cases "sender_name (message_data w)"; cases "debug_log (message_data w)";
        cases "map_chat_id w")
       (auto simp: resolve_stage_def Let_def)
qed

lemma reached_effects:
  assumes "client_ready e" "resolve_stage w reg = Reached reg' c logs"
  shows "process_waha_message e w reg =
     (reg', logs @ [Log WARNING ''Could not mark as read''] @ snd (respond_stage e (message_data w) c)
            @ (case fst (respond_stage e (message_data w) c) of Inl x \<Rightarrow> on_error e w | Inr r \<Rightarrow> []))"
  using assms
  by (cases "respond_stage e (message_data w) c"; cases "fst (respond_stage e (message_data w) c)")
     (simp_all add: process_waha_message_def try_block_def try_mark_as_read_warns)



lemma startswith_trigger:
  "startswith (lower t) trigger = (\<exists>a b r. t = a # b # r \<and> (a = 0x67 \<or> a = 0x47) \<and> (b = 0x67 \<or> b = 0x47))"
proof (cases t)
  case Nil
  then show ?thesis by (simp add: startswith_def trigger_def u_def lower_def)
next
  case (Cons a t')
  show ?thesis
  proof (cases t')
    case Nil
    with Cons show ?thesis by (simp add: startswith_def trigger_def u_def lower_def)
  next
    case (Cons b r)
    with \<open>t = a # t'\<close> show ?thesis
      by (auto simp: startswith_def trigger_def u_def lower_def lower_char_def)
  qed
qed

lemma triggered_strip_nonempty:
  assumes "startswith (lower t) trigger"
  shows "strip t \<noteq> []"
proof -
  from assms obtain a b r where t: "t = a # b # r" and a: "a = 0x67 \<or> a = 0x47"
    unfolding startswith_trigger by blast
  from a have "\<not> is_space a" by (auto simp: is_space_def)
  with t have d: "dropWhile is_space t = t" by simp
  have "dropWhile is_space (rev t) \<noteq> []"
  proof
    assume "dropWhile is_space (rev t) = []"
    then have "\<forall>x \<in> set (rev t). is_space x" by (simp add: dropWhile_eq_Nil_conv)
    with t \<open>\<not> is_space a\<close> show False by simp
  qed
  with d show ?thesis by (simp add: strip_def)
qed



lemma instruction_with_trigger:
  assumes "message_text p = JString t" "startswith (lower t) trigger" "strip (drop 2 t) \<noteq> []"
    and "message_type p \<in> {JString (u ''text''), JString (u ''chat'')}"
  shows "instruction_of p = Instruction (strip (drop 2 t))"
  using assms triggered_strip_nonempty[of t] by (auto simp: instruction_of_def Let_def)

lemma triggered_executes:
  assumes b: "message_text (message_data w) = JString t"
    and s: "sender (message_data w) \<in> {None, Some JObject}"
    and t: "startswith (lower t) trigger" and n: "strip (drop 2 t) \<noteq> []"
    and r: "client_ready e" and d: "msg_id (message_data w) |\<notin>| reg"
    and ty: "message_type (message_data w) \<in> {JString (u ''text''), JString (u ''chat'')}"
  shows "filter is_execute (snd (process_waha_message e w reg)) = [Execute (strip (drop 2 t))]"
proof -
  let ?p = "message_data w"
  let ?i = "strip (drop 2 t)"
  from b t n ty have i: "instruction_of ?p = Instruction ?i" by (rule instruction_with_trigger)
  obtain c lg where m: "map_chat_id w = (c, lg)" by (cases "map_chat_id w")
  with map_chat_id_logs[of _ w] have lg: "filter is_execute lg = []" by (simp add: filter_empty_conv)
  from b have "debug_log ?p = Inr ()" by (simp add: debug_log_ok)
  with s d m have st: "resolve_stage w reg = Reached (snd (record_message_id (msg_id ?p) reg)) c lg"
    by (simp add: resolve_stage_reached sender_name_ok)
  from i have rs: "respond_stage e ?p c = respond e c (msg_id ?p) ?i" by (simp add: respond_stage_def)
  from reached_effects[OF r st] lg respond_executes[of e c "msg_id ?p" ?i] on_error_no_execute[of e w]
  show ?thesis by (simp add: rs split: sum.splits)
qed




lemma record_first: "record_message_id i {||} = (False, {|i|})"
  by (simp add: record_message_id_def Let_def fcard_finsert_disjoint fcard_fempty)


text \<open>
  C10. The call \<open>mark_as_read(message_id, chat_id)\<close> raises \<open>TypeError\<close> before any
  request is made, and the attempt leaves the warning and nothing else. No run of the
  pipeline posts a read receipt, and what the pipeline does is independent of the
  transport's answer. A message reaches the attempt when it is no duplicate, its
  \<open>sender\<close> is absent or an object and its body can be sliced; the pipeline then does
  what it logged before, the warning, and all of the filter and reply stage with the
  error handling that belongs to it: for a message with an instruction the execution is
  the next effect after the warning.
\<close>

theorem mark_as_read_always_raises:
  "mark_as_read e [message_id, chat_id]
     = (Inl (TypeError ''WAHAClient.mark_as_read() takes 2 positional arguments but 3 were given''), [])
   \<and> try_mark_as_read e message_id chat_id = [Log WARNING ''Could not mark as read'']
   \<and> \<not> (\<exists>x \<in> set (snd (process_waha_message e w reg)). is_post_seen x)
   \<and> process_waha_message (e\<lparr>seen := f\<rparr>) w reg = process_waha_message e w reg
   \<and> ((\<exists>reg' c logs. resolve_stage w reg = Reached reg' c logs)
        = (msg_id (message_data w) |\<notin>| reg \<and> sender (message_data w) \<in> {None, Some JObject}
           \<and> ((\<exists>t. message_text (message_data w) = JString t) \<or> message_text (message_data w) = JArray)))
   \<and> (client_ready e \<and> resolve_stage w reg = Reached reg' c logs \<longrightarrow>
        process_waha_message e w reg =
          (reg', logs @ [Log WARNING ''Could not mark as read'']
                 @ snd (respond_stage e (message_data w) c)
                 @ (case fst (respond_stage e (message_data w) c) of
                      Inl x \<Rightarrow> on_error e w | Inr r \<Rightarrow> [])))
   \<and> (client_ready e \<and> resolve_stage w reg = Reached reg' c logs
        \<and> instruction_of (message_data w) = Instruction i \<longrightarrow>
        (\<exists>post. snd (process_waha_message e w reg)
           = logs @ [Log WARNING ''Could not mark as read'', Execute i] @ post))"
proof -
  let ?p = "message_data w"
  have a: "mark_as_read e [message_id, chat_id]
     = (Inl (TypeError ''WAHAClient.mark_as_read() takes 2 positional arguments but 3 were given''), [])"
    by (simp add: mark_as_read_def)
  have rs: "\<not> is_post_seen x" if "x \<in> set (snd (respond_stage e ?p c))" for x c
    using that respond_no_post_seen[of x e c "msg_id ?p"]
    by (cases "instruction_of ?p") (auto simp: respond_stage_def)
  have b: "\<not> (\<exists>x \<in> set (snd (process_waha_message e w reg)). is_post_seen x)"
  proof (cases "client_ready e")
    case False
    then show ?thesis by (simp add: process_waha_message_def)
  next
    case True
    show ?thesis
    proof (cases "resolve_stage w reg")
      case (Duplicate reg')
      with True show ?thesis by (simp add: process_waha_message_def try_block_def)
    next
      case (Aborted x reg')
      with True on_error_no_post_seen[of _ e w] show ?thesis
        by (auto simp: process_waha_message_def try_block_def)
    next
      case (Reached reg' c logs)
      then have "map_chat_id w = (c, logs)" by (simp add: resolve_stage_reached)
      with map_chat_id_logs[of _ w] have l: "\<forall>x \<in> set logs. \<not> is_post_seen x" by simp
      from reached_effects[OF True Reached] l rs on_error_no_post_seen[of _ e w] show ?thesis
        by (auto split: sum.splits)
    qed
  qed
  have c1: "respond (e\<lparr>seen := f\<rparr>) c m i = respond e c m i" for c m i
    by (simp add: respond_def Let_def split: sum.splits)
  have c2: "on_error (e\<lparr>seen := f\<rparr>) w = on_error e w"
    by (simp add: on_error_def Let_def split: sum.splits)
  have c3: "respond_stage (e\<lparr>seen := f\<rparr>) p c = respond_stage e p c" for p c
    by (simp add: respond_stage_def c1 split: filtered.splits)
  have c4: "try_block (e\<lparr>seen := f\<rparr>) w reg = try_block e w reg"
    by (simp add: try_block_def try_mark_as_read_warns c3 split: stage.splits)
  have c: "process_waha_message (e\<lparr>seen := f\<rparr>) w reg = process_waha_message e w reg"
    by (simp add: process_waha_message_def c2 c4 split: prod.splits sum.splits)
  have d: "(\<exists>reg' c logs. resolve_stage w reg = Reached reg' c logs)
        = (msg_id ?p |\<notin>| reg \<and> sender ?p \<in> {None, Some JObject}
           \<and> ((\<exists>t. message_text ?p = JString t) \<or> message_text ?p = JArray))"
    unfolding resolve_stage_reached sender_name_ok debug_log_ok
    by (cases "map_chat_id w") auto
  have g: "\<exists>post. snd (process_waha_message e w reg)
           = logs @ [Log WARNING ''Could not mark as read'', Execute i] @ post"
    if "client_ready e" "resolve_stage w reg = Reached reg' c logs" "instruction_of ?p = Instruction i"
  proof -
    from that(3) have "respond_stage e ?p c = respond e c (msg_id ?p) i"
      by (simp add: respond_stage_def)
    with respond_starts[of e c "msg_id ?p" i] obtain post
      where "snd (respond_stage e ?p c) = Execute i # post" by auto
    with reached_effects[OF that(1,2)] show ?thesis by simp
  qed
  from a b c d g reached_effects try_mark_as_read_warns show ?thesis by blast
qed

lemma fcard_fset_of_list_distinct: "distinct xs \<Longrightarrow> fcard (fset_of_list xs) = length xs"
  by (simp add: fcard.rep_eq fset_of_list.rep_eq distinct_card)

lemma record_message_id_new:
  assumes "i |\<notin>| reg" "fcard reg < 1000"
  shows "record_message_id i reg = (False, finsert i reg)"
  using assms by (simp add: record_message_id_def Let_def fcard_finsert_disjoint)

lemma record_message_id_overflow:
  assumes "i |\<notin>| reg" "fcard reg = 1000"
  shows "record_message_id i reg = (False, {||})"
  using assms by (simp add: record_message_id_def Let_def fcard_finsert_disjoint)

lemma record_message_id_duplicate:
  assumes "i |\<in>| reg"
  shows "record_message_id i reg = (True, reg)"
  using assms by (simp add: record_message_id_def)

lemma record_all_distinct:
  assumes "distinct ids" "fset reg \<inter> set ids = {}" "fcard reg + length ids \<le> 1000"
  shows "record_all ids reg = reg |\<union>| fset_of_list ids"
  using assms
proof (induction ids arbitrary: reg)
  case Nil
  then show ?case by (simp add: record_all_def)
next
  case (Cons i ids)
  from Cons.prems have n: "i |\<notin>| reg" and c: "fcard reg < 1000" by auto
  have step: "record_all (i # ids) reg = record_all ids (finsert i reg)"
    by (simp add: record_all_def record_message_id_new[OF n c])
  have "record_all ids (finsert i reg) = finsert i reg |\<union>| fset_of_list ids"
  proof (rule Cons.IH)
    show "distinct ids" using Cons.prems by simp
    show "fset (finsert i reg) \<inter> set ids = {}" using Cons.prems by auto
    show "fcard (finsert i reg) + length ids \<le> 1000"
      using Cons.prems n by (simp add: fcard_finsert_disjoint)
  qed
  with step show ?case by auto
qed

lemma example_id_inj: "example_id a = example_id b \<Longrightarrow> a = b"
proof -
  assume "example_id a = example_id b"
  then have "length (u ''m'' @ replicate a (0x31::nat)) = length (u ''m'' @ replicate b (0x31::nat))"
    by (simp add: example_id_def)
  then show ?thesis by simp
qed

lemma example_ids_distinct: "distinct (map example_id [0..<n])"
  by (simp add: distinct_map inj_on_def) (blast dest: example_id_inj)

lemma example_id_fresh: "example_id n |\<notin>| fset_of_list (map example_id [0..<n])"
  by (auto simp: fset_of_list.rep_eq dest: example_id_inj)

lemma record_all_examples:
  assumes "n \<le> 1000"
  shows "record_all (map example_id [0..<n]) {||} = fset_of_list (map example_id [0..<n])"
proof -
  have "fcard ({||} :: registry) + length (map example_id [0..<n]) \<le> 1000"
    using assms by (simp add: fcard_fempty)
  moreover have "fset ({||} :: registry) \<inter> set (map example_id [0..<n]) = {}" by simp
  ultimately have "record_all (map example_id [0..<n]) {||} = {||} |\<union>| fset_of_list (map example_id [0..<n])"
    using example_ids_distinct[of n] by (intro record_all_distinct)
  then show ?thesis by simp
qed

lemma process_registry:
  "client_ready e \<Longrightarrow>
   fst (process_waha_message e w reg) = snd (record_message_id (msg_id (message_data w)) reg)"
  by (simp add: process_waha_message_def try_block_def resolve_stage_def Let_def
      split: prod.splits sum.splits bool.splits)

lemma duplicate_skipped:
  assumes "client_ready e" "msg_id (message_data w) |\<in>| reg"
  shows "process_waha_message e w reg = (reg, [Log INFO ''Skipping duplicate message''])"
  using assms
  by (simp add: process_waha_message_def try_block_def resolve_stage_def Let_def
      record_message_id_duplicate)

lemma gg_hi: "startswith (lower (u ''gg hi'')) trigger" "strip (drop 2 (u ''gg hi'')) = u ''hi''"
  "u ''hi'' \<noteq> []"
  by (simp_all add: startswith_def lower_def lower_char_def trigger_def u_def strip_def is_space_def)

text \<open>
  C2, at the failing input: after 1000 distinct identifiers the registry holds all 1000;
  the message with the next identifier is processed and the registry is then empty, that
  identifier included, so the same message delivered again is processed a second time.
\<close>

theorem registry_reset_drops_newest:
  "let reg = record_all (map example_id [0..<1000]) {||};
       w = example_event (example_id 1000) (u ''gg hi'');
       first = process_waha_message example_env w reg;
       again = process_waha_message example_env w (fst first)
   in fcard reg = 1000 \<and> example_id 1000 |\<notin>| reg
      \<and> fst first = {||}
      \<and> filter is_execute (snd first) = [Execute (u ''hi'')]
      \<and> filter is_execute (snd again) = [Execute (u ''hi'')]"
proof -
  let ?reg = "record_all (map example_id [0..<1000]) {||}"
  let ?w = "example_event (example_id 1000) (u ''gg hi'')"
  have reg: "?reg = fset_of_list (map example_id [0..<1000])"
    by (rule record_all_examples) simp
  have card: "fcard ?reg = 1000"
    unfolding reg using fcard_fset_of_list_distinct[OF example_ids_distinct[of 1000]] by simp
  have fresh: "example_id 1000 |\<notin>| ?reg"
    unfolding reg by (rule example_id_fresh)
  have ready: "client_ready example_env" by (simp add: example_env_def)
  have mid: "msg_id (message_data ?w) = example_id 1000" by (simp add: example_event_def)
  have btxt: "message_text (message_data ?w) = JString (u ''gg hi'')"
    by (simp add: example_event_def message_text_def)
  have ty: "message_type (message_data ?w) \<in> {JString (u ''text''), JString (u ''chat'')}"
    by (simp add: example_event_def message_type_def)
  have sd: "sender (message_data ?w) \<in> {None, Some JObject}"
    by (simp add: example_event_def)
  have first: "fst (process_waha_message example_env ?w ?reg) = {||}"
    using process_registry[OF ready, of ?w ?reg] record_message_id_overflow[OF fresh card]
    by (simp add: mid)
  have x1: "filter is_execute (snd (process_waha_message example_env ?w ?reg)) = [Execute (u ''hi'')]"
    using triggered_executes[OF btxt sd gg_hi(1) _ ready, of ?reg] fresh ty
    by (simp add: mid gg_hi)
  have x2: "filter is_execute (snd (process_waha_message example_env ?w {||})) = [Execute (u ''hi'')]"
    using triggered_executes[OF btxt sd gg_hi(1) _ ready, of "{||}"] ty
    by (simp add: mid gg_hi)
  from card fresh first x1 x2 show ?thesis by (simp add: Let_def)
qed

lemma lid_resolved: "resolve_chat_id (message_data lid_event) = Some (u ''222@lid'')"
  by (simp add: lid_event_def resolve_chat_id_def is_group_field_def group_suffix_def u_def)

lemma lid_needs_mapping: "needs_mapping (Some (u ''222@lid''))"
  by (simp add: needs_mapping_def endswith_def individual_suffix_def group_suffix_def u_def suffix_Cons)

lemma lid_mapped:
  "map_waha_internal_id_to_group_id (u ''222@lid'') (serialized lid_event)
     = (u ''120363422170611614@g.us'', [(INFO, ''Mapped group name'')])"
  by (simp add: map_waha_internal_id_to_group_id_def known_groups_def lid_event_def lower_def
      lower_char_def u_def)

lemma lid_map_chat_id:
  "map_chat_id lid_event = (Some (u ''120363422170611614@g.us''), [Log INFO ''Mapped group name''])"
  by (simp add: map_chat_id_def lid_resolved lid_needs_mapping lid_mapped)

lemma lid_instruction: "instruction_of (message_data lid_event) = Instruction (u ''ask the nerds'')"
  by (simp add: instruction_of_def lid_event_def message_type_def message_text_def startswith_def
      trigger_def lower_def lower_char_def strip_def is_space_def u_def)

lemma lid_reached:
  "resolve_stage lid_event {||}
     = Reached {|Some (u ''m1'')|} (Some (u ''120363422170611614@g.us'')) [Log INFO ''Mapped group name'']"
  by (simp add: resolve_stage_reached record_first lid_map_chat_id sender_name_ok debug_log_ok)
     (simp add: lid_event_def message_text_def)

text \<open>
  C9, at the failing input: the main path resolves the event to the mapped group
  identifier, the executor raises, and the apology is sent to the unmapped \<open>to\<close> field.
\<close>

theorem apology_goes_to_unmapped_id:
  "process_waha_message failing_env lid_event {||} =
     ({|Some (u ''m1'')|},
      [Log INFO ''Mapped group name'', Log WARNING ''Could not mark as read'',
       Execute (u ''ask the nerds''),
       Log ERROR ''Error processing WAHA message'',
       SendText (Some (u ''222@lid'')) apology (Some (u ''m1''))])
   \<and> final_chat_id lid_event = Some (u ''120363422170611614@g.us'')"
proof -
  have m: "msg_id (message_data lid_event) = Some (u ''m1'')" by (simp add: lid_event_def)
  have t: "try_block failing_env lid_event {||} =
     (Inl (Raised (u ''executor failed'')), {|Some (u ''m1'')|},
      [Log INFO ''Mapped group name'', Log WARNING ''Could not mark as read'',
       Execute (u ''ask the nerds'')])"
    by (simp add: try_block_def m lid_reached respond_stage_def lid_instruction try_mark_as_read_warns
        respond_def failing_env_def Let_def)
  have o: "on_error failing_env lid_event =
     [Log ERROR ''Error processing WAHA message'',
      SendText (Some (u ''222@lid'')) apology (Some (u ''m1''))]"
    by (simp add: on_error_def m lid_resolved truthy_def failing_env_def Let_def u_def)
  have f: "final_chat_id lid_event = Some (u ''120363422170611614@g.us'')"
    by (simp add: final_chat_id_def lid_resolved lid_needs_mapping lid_mapped)
  show ?thesis
    by (simp add: process_waha_message_def t o f) (simp add: failing_env_def)
qed

section \<open>Properties of the job store\<close>

lemma untouched_invariant: "untouched j \<Longrightarrow> job_invariant j"
  by (simp add: untouched_def job_invariant_def)

lemma callback_completed:
  assumes "jobs s job_id = Some j" "payment_instances s job_id = Some p"
    and "execute_crew_task sv (input_data j) = Inr res"
    and "complete_payment sv pid (json_dict res) = Inr ()"
    and "stop_status_monitoring sv 0 = Inr ()"
  shows "handle_payment_status sv job_id pid s =
     (Inr (),
      s\<lparr>jobs := (jobs s)(job_id \<mapsto> j\<lparr>status := completed, payment_status := Some (u ''completed''),
                                       result := Some res\<rparr>),
        payment_instances := (payment_instances s)(job_id := None)\<rparr>,
      [RunCrew, CompletePayment pid, StopMonitoring job_id])"
  using assms
  by (simp add: handle_payment_status_def try_job_def mark_running_def execute_and_finalize_def
      release_monitor_def Let_def)

lemma callback_execution_failed:
  assumes "jobs s job_id = Some j" "payment_instances s job_id = Some p"
    and "execute_crew_task sv (input_data j) = Inl x"
    and "stop_status_monitoring sv 0 = Inr ()"
  shows "handle_payment_status sv job_id pid s =
     (Inr (),
      s\<lparr>jobs := (jobs s)(job_id \<mapsto> j\<lparr>status := failed, error := Some (str_of_error x)\<rparr>),
        payment_instances := (payment_instances s)(job_id := None)\<rparr>,
      [RunCrew, StopMonitoring job_id])"
  using assms
  by (simp add: handle_payment_status_def try_job_def mark_running_def execute_and_finalize_def
      on_job_error_def release_monitor_def Let_def)

lemma callback_finalization_failed:
  assumes "jobs s job_id = Some j" "payment_instances s job_id = Some p"
    and "execute_crew_task sv (input_data j) = Inr res"
    and "complete_payment sv pid (json_dict res) = Inl x"
    and "stop_status_monitoring sv 0 = Inr ()"
  shows "handle_payment_status sv job_id pid s =
     (Inr (),
      s\<lparr>jobs := (jobs s)(job_id \<mapsto> j\<lparr>status := failed, error := Some (str_of_error x)\<rparr>),
        payment_instances := (payment_instances s)(job_id := None)\<rparr>,
      [RunCrew, CompletePayment pid, StopMonitoring job_id])"
  using assms
  by (simp add: handle_payment_status_def try_job_def mark_running_def execute_and_finalize_def
      on_job_error_def release_monitor_def Let_def)

lemma callback_release_failed:
  assumes "jobs s job_id = Some j" "payment_instances s job_id = Some p"
    and "execute_crew_task sv (input_data j) = Inr res"
    and "complete_payment sv pid (json_dict res) = Inr ()"
    and "stop_status_monitoring sv 0 = Inl x"
  shows "jobs (fst (snd (handle_payment_status sv job_id pid s))) job_id =
      Some (j\<lparr>status := completed, payment_status := Some (u ''completed''), result := Some res\<rparr>
             \<lparr>status := failed, error := Some (str_of_error x)\<rparr>)"
  using assms
  by (simp add: handle_payment_status_def try_job_def mark_running_def execute_and_finalize_def
      on_job_error_def release_monitor_def Let_def split: sum.splits)

lemma entry_ok_start_job:
  assumes "entry_ok s k"
  shows "entry_ok (snd (start_job sv data s)) k"
  using assms
  by (cases "k = new_job_id sv")
     (auto simp: entry_ok_def start_job_def Let_def job_invariant_def untouched_def
      split: option.splits sum.splits if_splits)

lemma entry_ok_get_status:
  assumes "entry_ok s k"
  shows "entry_ok (snd (get_status sv job_id s)) k"
  using assms
  by (cases "k = job_id")
     (auto simp: entry_ok_def get_status_def Let_def job_invariant_def untouched_def
      split: option.splits sum.splits error.splits if_splits)

lemma entry_ok_mark_running:
  assumes "entry_ok s k" "mark_running job_id s = Inr s'" "payment_instances s job_id \<noteq> None"
  shows "entry_ok s' k"
  using assms
  by (cases "k = job_id")
     (auto simp: entry_ok_def mark_running_def job_invariant_def untouched_def
      split: option.splits if_splits)

lemma entry_ok_handle_payment_status:
  assumes "entry_ok s k" "entry_ok s job_id" "stop_returns sv" "payment_instances s job_id \<noteq> None"
  shows "entry_ok (fst (snd (handle_payment_status sv job_id pid s))) k"
proof -
  from assms(2,4) obtain j p where j: "jobs s job_id = Some j" and p: "payment_instances s job_id = Some p"
    and un: "untouched j"
    by (auto simp: entry_ok_def split: option.splits)
  from assms(3) have st: "stop_status_monitoring sv 0 = Inr ()" by (simp add: stop_returns_def)
  show ?thesis
  proof (cases "execute_crew_task sv (input_data j)")
    case (Inl x)
    from callback_execution_failed[OF j p Inl st, of pid] assms(1) un show ?thesis
      by (simp add: entry_ok_def job_invariant_def untouched_def split: option.splits)
  next
    case (Inr res)
    show ?thesis
    proof (cases "complete_payment sv pid (json_dict res)")
      case (Inl x)
      from callback_finalization_failed[OF j p Inr Inl st] assms(1) un show ?thesis
        by (simp add: entry_ok_def job_invariant_def untouched_def split: option.splits)
    next
      case inr: (Inr r)
      then have "complete_payment sv pid (json_dict res) = Inr ()" by simp
      from callback_completed[OF j p Inr this st] assms(1) un show ?thesis
        by (simp add: entry_ok_def job_invariant_def untouched_def split: option.splits)
    qed
  qed
qed

lemma reachable_entry_ok:
  "reachable stop_returns s \<Longrightarrow> entry_ok s k"
proof (induction arbitrary: k rule: reachable.induct)
  case init
  show ?case by (simp add: entry_ok_def empty_store_def)
next
  case (started s sv data)
  then show ?case by (simp add: entry_ok_start_job)
next
  case (queried s sv job_id)
  then show ?case by (simp add: entry_ok_get_status)
next
  case (running s job_id s')
  then show ?case by (blast intro: entry_ok_mark_running)
next
  case (called_back s sv job_id pid)
  then show ?case by (simp add: entry_ok_handle_payment_status)
qed

lemma reachable_job_invariant:
  assumes "reachable stop_returns s" "jobs s k = Some j"
  shows "job_invariant j"
  using reachable_entry_ok[OF assms(1), of k] assms(2) by (simp add: entry_ok_def)


lemma start_job_stores:
  assumes "map_of (req_input_data data) (u ''text'') = Some t" and "create_payment_request sv = Inr pid"
  shows "jobs (snd (start_job sv data s)) (new_job_id sv) =
           Some \<lparr>status = awaiting_payment, payment_status = Some (u ''pending''), payment_id = pid,
                 input_data = req_input_data data, result = None, error = None,
                 identifier_from_purchaser = req_identifier_from_purchaser data\<rparr>"
    and "payment_instances (snd (start_job sv data s)) (new_job_id sv) \<noteq> None"
  using assms by (simp_all add: start_job_def Let_def split: sum.splits)

lemma callback_execution_failed_job:
  assumes "jobs s job_id = Some j"
    and "execute_crew_task sv (input_data j) = Inl x"
  shows "jobs (fst (snd (handle_payment_status sv job_id pid s))) job_id =
           Some (j\<lparr>status := failed, error := Some (str_of_error x)\<rparr>)"
  using assms
  by (simp add: handle_payment_status_def try_job_def mark_running_def execute_and_finalize_def
      on_job_error_def release_monitor_def Let_def split: sum.splits option.splits)

lemma callback_finalization_failed_job:
  assumes "jobs s job_id = Some j" "payment_instances s job_id = Some p"
    and "execute_crew_task sv (input_data j) = Inr res"
    and "complete_payment sv pid (json_dict res) = Inl x"
  shows "jobs (fst (snd (handle_payment_status sv job_id pid s))) job_id =
           Some (j\<lparr>status := failed, error := Some (str_of_error x)\<rparr>)"
  using assms
  by (simp add: handle_payment_status_def try_job_def mark_running_def execute_and_finalize_def
      on_job_error_def release_monitor_def Let_def split: sum.splits option.splits)

text \<open>
  The life of a job when the release step returns: \<open>start_job\<close> stores it as
  \<open>awaiting_payment\<close> with payment status \<open>pending\<close> and no result; the callback first
  sets it to \<open>running\<close>; when execution, finalization and the release that ends the
  \<open>try\<close> block return, the job is \<open>completed\<close> with its result; when execution or
  finalization raises, it is \<open>failed\<close> with the error text.
\<close>

lemma job_lifecycle:
  assumes "map_of (req_input_data data) (u ''text'') = Some t"
    and "create_payment_request sv = Inr pid"
  shows "\<exists>j. jobs (snd (start_job sv data s)) (new_job_id sv) = Some j
      \<and> status j = awaiting_payment \<and> payment_status j = Some (u ''pending'') \<and> result j = None
      \<and> (\<exists>s'. mark_running (new_job_id sv) (snd (start_job sv data s)) = Inr s'
             \<and> map_option status (jobs s' (new_job_id sv)) = Some running
             \<and> try_job cb (new_job_id sv) pid (snd (start_job sv data s))
                 = execute_and_finalize cb (new_job_id sv) pid s')
      \<and> (\<forall>res. execute_crew_task cb (input_data j) = Inr res
             \<and> complete_payment cb pid (json_dict res) = Inr ()
             \<and> stop_status_monitoring cb 0 = Inr () \<longrightarrow>
           (\<exists>j'. jobs (fst (snd (handle_payment_status cb (new_job_id sv) pid (snd (start_job sv data s)))))
                    (new_job_id sv) = Some j'
                \<and> status j' = completed \<and> result j' = Some res))
      \<and> (\<forall>x. execute_crew_task cb (input_data j) = Inl x
             \<or> (\<exists>res. execute_crew_task cb (input_data j) = Inr res
                   \<and> complete_payment cb pid (json_dict res) = Inl x) \<longrightarrow>
           (\<exists>j'. jobs (fst (snd (handle_payment_status cb (new_job_id sv) pid (snd (start_job sv data s)))))
                    (new_job_id sv) = Some j'
                \<and> status j' = failed \<and> error j' = Some (str_of_error x)))"
proof -
  let ?s1 = "snd (start_job sv data s)"
  let ?k = "new_job_id sv"
  let ?j = "\<lparr>status = awaiting_payment, payment_status = Some (u ''pending''), payment_id = pid,
                 input_data = req_input_data data, result = None, error = None,
                 identifier_from_purchaser = req_identifier_from_purchaser data\<rparr>"
  have j: "jobs ?s1 ?k = Some ?j" using assms by (rule start_job_stores)
  from start_job_stores(2)[OF assms] obtain p where p: "payment_instances ?s1 ?k = Some p" by blast
  have r: "\<exists>s'. mark_running ?k ?s1 = Inr s'
             \<and> map_option status (jobs s' ?k) = Some running
             \<and> try_job cb ?k pid ?s1 = execute_and_finalize cb ?k pid s'"
    using j by (simp add: mark_running_def try_job_def)
  have c: "\<exists>j'. jobs (fst (snd (handle_payment_status cb ?k pid ?s1))) ?k = Some j'
                \<and> status j' = completed \<and> result j' = Some res"
    if "execute_crew_task cb (input_data ?j) = Inr res"
      "complete_payment cb pid (json_dict res) = Inr ()"
      "stop_status_monitoring cb 0 = Inr ()" for res
    using callback_completed[OF j p that] by simp
  have f: "\<exists>j'. jobs (fst (snd (handle_payment_status cb ?k pid ?s1))) ?k = Some j'
                \<and> status j' = failed \<and> error j' = Some (str_of_error x)"
    if "execute_crew_task cb (input_data ?j) = Inl x
             \<or> (\<exists>res. execute_crew_task cb (input_data ?j) = Inr res
                   \<and> complete_payment cb pid (json_dict res) = Inl x)" for x
    using that
  proof
    assume "execute_crew_task cb (input_data ?j) = Inl x"
    from callback_execution_failed_job[OF j this] show ?thesis by simp
  next
    assume "\<exists>res. execute_crew_task cb (input_data ?j) = Inr res
                   \<and> complete_payment cb pid (json_dict res) = Inl x"
    then obtain res where "execute_crew_task cb (input_data ?j) = Inr res"
      "complete_payment cb pid (json_dict res) = Inl x" by blast
    from callback_finalization_failed_job[OF j p this] show ?thesis by simp
  qed
  from j r c f show ?thesis by simp
qed

lemma release_monitor_absent:
  "payment_instances s job_id = None \<Longrightarrow> release_monitor sv n job_id s = (Inr (), s, [])"
  by (simp add: release_monitor_def)

text \<open>
  When the first \<open>stop_status_monitoring\<close> call returns, the callback of a registered
  job ends in a terminal state, has stopped the monitor exactly once and removed the
  payment instance; the release step run again on that store returns normally, calls
  nothing and changes nothing.
\<close>

lemma monitor_released_once:
  assumes "jobs s job_id = Some j" and "payment_instances s job_id = Some p"
    and "stop_status_monitoring sv 0 = Inr ()"
  shows "\<exists>s' cs j'. handle_payment_status sv job_id pid s = (Inr (), s', cs)
      \<and> jobs s' job_id = Some j' \<and> (status j' = completed \<or> status j' = failed)
      \<and> payment_instances s' = (payment_instances s)(job_id := None)
      \<and> filter is_stop cs = [StopMonitoring job_id]
      \<and> (\<forall>sv' n. release_monitor sv' n job_id s' = (Inr (), s', []))"
proof (cases "execute_crew_task sv (input_data j)")
  case (Inl x)
  from callback_execution_failed[OF assms(1,2) Inl assms(3), of pid] show ?thesis
    by (simp add: release_monitor_absent)
next
  case (Inr res)
  show ?thesis
  proof (cases "complete_payment sv pid (json_dict res)")
    case (Inl x)
    from callback_finalization_failed[OF assms(1,2) Inr Inl assms(3)] show ?thesis
      by (simp add: release_monitor_absent)
  next
    case inr: (Inr r)
    then have "complete_payment sv pid (json_dict res) = Inr ()" by simp
    from callback_completed[OF assms(1,2) Inr this assms(3)] show ?thesis
      by (simp add: release_monitor_absent)
  qed
qed

lemma example_started:
  "jobs (snd (start_job example_services example_request empty_store)) (u ''job-1'') =
           Some \<lparr>status = awaiting_payment, payment_status = Some (u ''pending''), payment_id = u ''pay-1'',
                 input_data = [(u ''text'', u ''Write a story'')], result = None, error = None,
                 identifier_from_purchaser = u ''buyer-1''\<rparr>"
  "payment_instances (snd (start_job example_services example_request empty_store)) (u ''job-1'') \<noteq> None"
  using start_job_stores[of example_request "u ''Write a story''" example_services "u ''pay-1''" empty_store]
  by (simp_all add: example_request_def example_services_def)

text \<open>
  C4, at the failing input: a job is created, its callback runs, execution and
  finalization return and \<open>stop_status_monitoring\<close> raises. The store is reachable, and
  the job is \<open>failed\<close> with its error set and its result still set.
\<close>

theorem late_exception_keeps_result:
  "let s1 = snd (start_job example_services example_request empty_store);
       s2 = fst (snd (handle_payment_status faulty_stop_services (u ''job-1'') (u ''pay-1'') s1))
   in reachable (\<lambda>sv. True) s2
      \<and> (case jobs s2 (u ''job-1'') of
            None \<Rightarrow> False
          | Some j \<Rightarrow> status j = failed
              \<and> result j = Some \<lparr>raw = u ''A story'', json_dict = None\<rparr>
              \<and> error j = Some (u ''stop failed'')
              \<and> \<not> job_invariant j)"
proof -
  let ?s1 = "snd (start_job example_services example_request empty_store)"
  let ?s2 = "fst (snd (handle_payment_status faulty_stop_services (u ''job-1'') (u ''pay-1'') ?s1))"
  let ?j = "\<lparr>status = awaiting_payment, payment_status = Some (u ''pending''), payment_id = u ''pay-1'',
                 input_data = [(u ''text'', u ''Write a story'')], result = None, error = None,
                 identifier_from_purchaser = u ''buyer-1''\<rparr>"
  have r1: "reachable (\<lambda>sv. True) ?s1" by (intro reachable.started reachable.init) simp
  from example_started(2) have "reachable (\<lambda>sv. True) ?s2"
    by (intro reachable.called_back r1) simp_all
  moreover
  from example_started(2) obtain p where p: "payment_instances ?s1 (u ''job-1'') = Some p" by blast
  have "jobs ?s2 (u ''job-1'') =
      Some (?j\<lparr>status := completed, payment_status := Some (u ''completed''),
               result := Some \<lparr>raw = u ''A story'', json_dict = None\<rparr>\<rparr>
             \<lparr>status := failed, error := Some (str_of_error (Raised (u ''stop failed'')))\<rparr>)"
    by (rule callback_release_failed[OF example_started(1) p])
       (simp_all add: faulty_stop_services_def example_services_def)
  ultimately show ?thesis by (simp add: Let_def job_invariant_def)
qed

lemma job_lifecycle_example:
  "(\<exists>j'. jobs (fst (snd (handle_payment_status example_services (u ''job-1'') (u ''pay-1'')
              (snd (start_job example_services example_request empty_store))))) (u ''job-1'') = Some j'
        \<and> status j' = completed \<and> result j' = Some \<lparr>raw = u ''A story'', json_dict = None\<rparr>)
   \<and> (\<exists>j'. jobs (fst (snd (handle_payment_status faulty_crew_services (u ''job-1'') (u ''pay-1'')
              (snd (start_job example_services example_request empty_store))))) (u ''job-1'') = Some j'
        \<and> status j' = failed \<and> error j' = Some (u ''crew failed''))"
proof -
  have t: "map_of (req_input_data example_request) (u ''text'') = Some (u ''Write a story'')"
    by (simp add: example_request_def)
  have c: "create_payment_request example_services = Inr (u ''pay-1'')"
    by (simp add: example_services_def)
  have k: "new_job_id example_services = u ''job-1''" by (simp add: example_services_def)
  have ok: "execute_crew_task example_services i = Inr \<lparr>raw = u ''A story'', json_dict = None\<rparr>
      \<and> complete_payment example_services (u ''pay-1'') (json_dict \<lparr>raw = u ''A story'', json_dict = None\<rparr>) = Inr ()
      \<and> stop_status_monitoring example_services 0 = Inr ()" for i
    by (simp add: example_services_def)
  have bad: "execute_crew_task faulty_crew_services i = Inl (Raised (u ''crew failed''))" for i
    by (simp add: faulty_crew_services_def example_services_def)
  from job_lifecycle[OF t c, of empty_store example_services] ok
  have 1: "\<exists>j'. jobs (fst (snd (handle_payment_status example_services (u ''job-1'') (u ''pay-1'')
              (snd (start_job example_services example_request empty_store))))) (u ''job-1'') = Some j'
        \<and> status j' = completed \<and> result j' = Some \<lparr>raw = u ''A story'', json_dict = None\<rparr>"
    unfolding k by blast
  from job_lifecycle[OF t c, of empty_store faulty_crew_services] bad
  have "\<exists>j'. jobs (fst (snd (handle_payment_status faulty_crew_services (u ''job-1'') (u ''pay-1'')
              (snd (start_job example_services example_request empty_store))))) (u ''job-1'') = Some j'
        \<and> status j' = failed \<and> error j' = Some (str_of_error (Raised (u ''crew failed'')))"
    unfolding k by blast
  with 1 show ?thesis by simp
qed

lemma monitor_released_once_example:
  "\<exists>s' cs. handle_payment_status example_services (u ''job-1'') (u ''pay-1'')
              (snd (start_job example_services example_request empty_store)) = (Inr (), s', cs)
      \<and> payment_instances s' (u ''job-1'') = None
      \<and> filter is_stop cs = [StopMonitoring (u ''job-1'')]
      \<and> release_monitor faulty_stop_services 1 (u ''job-1'') s' = (Inr (), s', [])"
proof -
  let ?s1 = "snd (start_job example_services example_request empty_store)"
  from example_started(2) obtain p where p: "payment_instances ?s1 (u ''job-1'') = Some p" by blast
  have st: "stop_status_monitoring example_services 0 = Inr ()" by (simp add: example_services_def)
  from monitor_released_once[OF example_started(1) p st, of "u ''pay-1''"]
  show ?thesis by fastforce
qed

lemma callback_release_failed_twice:
  assumes "jobs s job_id = Some j" "payment_instances s job_id = Some p"
    and "execute_crew_task sv (input_data j) = Inr res"
    and "complete_payment sv pid (json_dict res) = Inr ()"
    and "stop_status_monitoring sv 0 = Inl x" and "stop_status_monitoring sv (Suc 0) = Inl y"
  shows "fst (handle_payment_status sv job_id pid s) = Inl y"
    and "snd (snd (handle_payment_status sv job_id pid s))
           = [RunCrew, CompletePayment pid, StopMonitoring job_id, StopMonitoring job_id]"
    and "payment_instances (fst (snd (handle_payment_status sv job_id pid s))) job_id = Some p"
  using assms
  by (simp_all add: handle_payment_status_def try_job_def mark_running_def execute_and_finalize_def
      on_job_error_def release_monitor_def Let_def)

lemma callback_release_failed_once:
  assumes "jobs s job_id = Some j" "payment_instances s job_id = Some p"
    and "execute_crew_task sv (input_data j) = Inr res"
    and "complete_payment sv pid (json_dict res) = Inr ()"
    and "stop_status_monitoring sv 0 = Inl x" and "stop_status_monitoring sv (Suc 0) = Inr ()"
  shows "fst (handle_payment_status sv job_id pid s) = Inr ()"
    and "snd (snd (handle_payment_status sv job_id pid s))
           = [RunCrew, CompletePayment pid, StopMonitoring job_id, StopMonitoring job_id]"
    and "payment_instances (fst (snd (handle_payment_status sv job_id pid s))) job_id = None"
  using assms
  by (simp_all add: handle_payment_status_def try_job_def mark_running_def execute_and_finalize_def
      on_job_error_def release_monitor_def Let_def)

text \<open>
  C1, at the failing input: a job is created and stored as \<open>awaiting_payment\<close>; in its
  callback the task execution and the payment finalization return, and they are the
  first two calls; \<open>stop_status_monitoring\<close> then raises, and the job ends \<open>failed\<close>, not
  \<open>completed\<close>.
\<close>

theorem release_failure_fails_finished_job:
  "let s1 = snd (start_job example_services example_request empty_store);
       r = handle_payment_status faulty_stop_services (u ''job-1'') (u ''pay-1'') s1
   in map_option status (jobs s1 (u ''job-1'')) = Some awaiting_payment
      \<and> execute_crew_task faulty_stop_services [(u ''text'', u ''Write a story'')]
          = Inr \<lparr>raw = u ''A story'', json_dict = None\<rparr>
      \<and> complete_payment faulty_stop_services (u ''pay-1'') None = Inr ()
      \<and> take 2 (snd (snd r)) = [RunCrew, CompletePayment (u ''pay-1'')]
      \<and> map_option status (jobs (fst (snd r)) (u ''job-1'')) = Some failed"
proof -
  let ?s1 = "snd (start_job example_services example_request empty_store)"
  let ?r = "handle_payment_status faulty_stop_services (u ''job-1'') (u ''pay-1'') ?s1"
  let ?j = "\<lparr>status = awaiting_payment, payment_status = Some (u ''pending''), payment_id = u ''pay-1'',
                 input_data = [(u ''text'', u ''Write a story'')], result = None, error = None,
                 identifier_from_purchaser = u ''buyer-1''\<rparr>"
  from example_started(2) obtain p where p: "payment_instances ?s1 (u ''job-1'') = Some p" by blast
  have a: "map_option status (jobs ?s1 (u ''job-1'')) = Some awaiting_payment"
    by (simp add: example_started(1))
  have x: "execute_crew_task faulty_stop_services [(u ''text'', u ''Write a story'')]
          = Inr \<lparr>raw = u ''A story'', json_dict = None\<rparr>"
    by (simp add: faulty_stop_services_def example_services_def)
  have c: "complete_payment faulty_stop_services (u ''pay-1'') None = Inr ()"
    by (simp add: faulty_stop_services_def example_services_def)
  have st: "stop_status_monitoring faulty_stop_services n = Inl (Raised (u ''stop failed''))" for n
    by (simp add: faulty_stop_services_def example_services_def)
  have "snd (snd ?r) = [RunCrew, CompletePayment (u ''pay-1''), StopMonitoring (u ''job-1''),
      StopMonitoring (u ''job-1'')]"
    by (rule callback_release_failed_twice(2)[OF example_started(1) p _ _ st st])
       (simp_all add: faulty_stop_services_def example_services_def)
  then have t: "take 2 (snd (snd ?r)) = [RunCrew, CompletePayment (u ''pay-1'')]" by simp
  have "jobs (fst (snd ?r)) (u ''job-1'') =
      Some (?j\<lparr>status := completed, payment_status := Some (u ''completed''),
               result := Some \<lparr>raw = u ''A story'', json_dict = None\<rparr>\<rparr>
             \<lparr>status := failed, error := Some (str_of_error (Raised (u ''stop failed'')))\<rparr>)"
    by (rule callback_release_failed[OF example_started(1) p _ _ st])
       (simp_all add: faulty_stop_services_def example_services_def)
  then have f: "map_option status (jobs (fst (snd ?r)) (u ''job-1'')) = Some failed" by simp
  from a x c t f show ?thesis by (simp add: Let_def)
qed

text \<open>
  C8, at the failing input: when \<open>stop_status_monitoring\<close> raises in the release step
  that ends the \<open>try\<close> block, the \<open>except\<close> block runs the release step again, so the
  monitor is stopped twice in one run of the callback. With a stop that raises every
  time the exception leaves the callback and the payment instance stays registered; with
  one that raises the first time only, the second call removes the instance.
\<close>

theorem release_failure_repeats_stop:
  "let s1 = snd (start_job example_services example_request empty_store);
       r = handle_payment_status faulty_stop_services (u ''job-1'') (u ''pay-1'') s1;
       r' = handle_payment_status flaky_stop_services (u ''job-1'') (u ''pay-1'') s1
   in fst r = Inl (Raised (u ''stop failed''))
      \<and> filter is_stop (snd (snd r)) = [StopMonitoring (u ''job-1''), StopMonitoring (u ''job-1'')]
      \<and> payment_instances (fst (snd r)) (u ''job-1'') \<noteq> None
      \<and> fst r' = Inr ()
      \<and> filter is_stop (snd (snd r')) = [StopMonitoring (u ''job-1''), StopMonitoring (u ''job-1'')]
      \<and> payment_instances (fst (snd r')) (u ''job-1'') = None"
proof -
  let ?s1 = "snd (start_job example_services example_request empty_store)"
  let ?r = "handle_payment_status faulty_stop_services (u ''job-1'') (u ''pay-1'') ?s1"
  let ?r' = "handle_payment_status flaky_stop_services (u ''job-1'') (u ''pay-1'') ?s1"
  from example_started(2) obtain p where p: "payment_instances ?s1 (u ''job-1'') = Some p" by blast
  have st: "stop_status_monitoring faulty_stop_services n = Inl (Raised (u ''stop failed''))" for n
    by (simp add: faulty_stop_services_def example_services_def)
  have f0: "stop_status_monitoring flaky_stop_services 0 = Inl (Raised (u ''stop failed''))"
    and f1: "stop_status_monitoring flaky_stop_services (Suc 0) = Inr ()"
    by (simp_all add: flaky_stop_services_def example_services_def)
  note twice = callback_release_failed_twice[OF example_started(1) p _ _ st st,
      where res = "\<lparr>raw = u ''A story'', json_dict = None\<rparr>" and pid = "u ''pay-1''"]
  note once = callback_release_failed_once[OF example_started(1) p _ _ f0 f1,
      where res = "\<lparr>raw = u ''A story'', json_dict = None\<rparr>" and pid = "u ''pay-1''"]
  have 1: "fst ?r = Inl (Raised (u ''stop failed''))"
    by (rule twice(1)) (simp_all add: faulty_stop_services_def example_services_def)
  have "snd (snd ?r) = [RunCrew, CompletePayment (u ''pay-1''), StopMonitoring (u ''job-1''),
      StopMonitoring (u ''job-1'')]"
    by (rule twice(2)) (simp_all add: faulty_stop_services_def example_services_def)
  then have 2: "filter is_stop (snd (snd ?r)) = [StopMonitoring (u ''job-1''), StopMonitoring (u ''job-1'')]"
    by simp
  have "payment_instances (fst (snd ?r)) (u ''job-1'') = Some p"
    by (rule twice(3)) (simp_all add: faulty_stop_services_def example_services_def)
  then have 3: "payment_instances (fst (snd ?r)) (u ''job-1'') \<noteq> None" by simp
  have 4: "fst ?r' = Inr ()"
    by (rule once(1)) (simp_all add: flaky_stop_services_def example_services_def)
  have "snd (snd ?r') = [RunCrew, CompletePayment (u ''pay-1''), StopMonitoring (u ''job-1''),
      StopMonitoring (u ''job-1'')]"
    by (rule once(2)) (simp_all add: flaky_stop_services_def example_services_def)
  then have 5: "filter is_stop (snd (snd ?r')) = [StopMonitoring (u ''job-1''), StopMonitoring (u ''job-1'')]"
    by simp
  have 6: "payment_instances (fst (snd ?r')) (u ''job-1'') = None"
    by (rule once(3)) (simp_all add: flaky_stop_services_def example_services_def)
  from 1 2 3 4 5 6 show ?thesis by (simp add: Let_def)
qed

section \<open>The pipeline at sample events\<close>


lemma example_reached:
  "resolve_stage (example_event (example_id 0) b) {||}
     = Reached {|example_id 0|} (Some (u ''2@c.us'')) []"
proof -
  have "resolve_chat_id (message_data (example_event (example_id 0) b)) = Some (u ''2@c.us'')"
    by (simp add: example_event_def resolve_chat_id_def is_group_field_def group_suffix_def u_def)
  moreover have "\<not> needs_mapping (Some (u ''2@c.us''))"
    by (simp add: needs_mapping_def endswith_def group_suffix_def individual_suffix_def u_def suffix_Cons)
  ultimately have "map_chat_id (example_event (example_id 0) b) = (Some (u ''2@c.us''), [])"
    by (simp add: map_chat_id_def)
  then show ?thesis
    by (simp add: resolve_stage_reached record_first sender_name_ok debug_log_ok)
       (simp add: example_event_def message_text_def)
qed

theorem mark_as_read_always_raises_witness:
  "process_waha_message example_env (example_event (example_id 0) (u ''gg hi'')) {||}
     = ({|example_id 0|},
        [Log WARNING ''Could not mark as read'', Execute (u ''hi''),
         SendText (Some (u ''2@c.us'')) (shape_response (u ''ok'')) (example_id 0),
         Log INFO ''Response sent successfully''])
   \<and> process_waha_message example_env (example_event (example_id 0) (u ''hello'')) {||}
     = ({|example_id 0|},
        [Log WARNING ''Could not mark as read'', Log INFO ''Message does not start with gg, skipping''])"
proof -
  have r: "client_ready example_env" by (simp add: example_env_def)
  let ?w = "example_event (example_id 0) (u ''gg hi'')"
  have i: "instruction_of (message_data ?w) = Instruction (u ''hi'')"
    using instruction_with_trigger[of "message_data ?w" "u ''gg hi''"] gg_hi
    by (simp add: example_event_def message_text_def message_type_def)
  have rs: "respond_stage example_env (message_data ?w) (Some (u ''2@c.us''))
      = (Inr (), [Execute (u ''hi''),
           SendText (Some (u ''2@c.us'')) (shape_response (u ''ok'')) (example_id 0),
           Log INFO ''Response sent successfully''])"
    by (simp add: respond_stage_def i respond_def example_env_def Let_def)
       (simp add: example_event_def)
  from mark_as_read_always_raises[where e = example_env and w = ?w and reg = "{||}"
      and reg' = "{|example_id 0|}" and c = "Some (u ''2@c.us'')" and logs = "[]"]
    r example_reached[of "u ''gg hi''"]
  have "process_waha_message example_env ?w {||} =
          ({|example_id 0|}, [] @ [Log WARNING ''Could not mark as read'']
                 @ snd (respond_stage example_env (message_data ?w) (Some (u ''2@c.us'')))
                 @ (case fst (respond_stage example_env (message_data ?w) (Some (u ''2@c.us''))) of
                      Inl x \<Rightarrow> on_error example_env ?w | Inr r \<Rightarrow> []))"
    by blast
  then have 1: "process_waha_message example_env ?w {||}
     = ({|example_id 0|},
        [Log WARNING ''Could not mark as read'', Execute (u ''hi''),
         SendText (Some (u ''2@c.us'')) (shape_response (u ''ok'')) (example_id 0),
         Log INFO ''Response sent successfully''])"
    by (simp add: rs)
  let ?h = "example_event (example_id 0) (u ''hello'')"
  have ih: "instruction_of (message_data ?h) = Skip ''Message does not start with gg, skipping''"
    by (simp add: instruction_of_def example_event_def message_text_def message_type_def
        startswith_def lower_def lower_char_def trigger_def strip_def is_space_def u_def)
  have rh: "respond_stage example_env (message_data ?h) (Some (u ''2@c.us''))
      = (Inr (), [Log INFO ''Message does not start with gg, skipping''])"
    by (simp add: respond_stage_def ih)
  from mark_as_read_always_raises[where e = example_env and w = ?h and reg = "{||}"
      and reg' = "{|example_id 0|}" and c = "Some (u ''2@c.us'')" and logs = "[]"]
    r example_reached[of "u ''hello''"]
  have "process_waha_message example_env ?h {||} =
          ({|example_id 0|}, [] @ [Log WARNING ''Could not mark as read'']
                 @ snd (respond_stage example_env (message_data ?h) (Some (u ''2@c.us'')))
                 @ (case fst (respond_stage example_env (message_data ?h) (Some (u ''2@c.us''))) of
                      Inl x \<Rightarrow> on_error example_env ?h | Inr r \<Rightarrow> []))"
    by blast
  then have 2: "process_waha_message example_env ?h {||}
     = ({|example_id 0|},
        [Log WARNING ''Could not mark as read'', Log INFO ''Message does not start with gg, skipping''])"
    by (simp add: rh)
  from 1 2 show ?thesis by blast
qed

lemma find_group_id_arabic_indic:
  "find_group_id (u ''id '' @ [0x661, 0x662, 0x663] @ u ''@g.us'')
     = Some ([0x661, 0x662, 0x663] @ u ''@g.us'')"
  by (simp add: u_def is_digit_def decimal_ranges_def group_suffix_def)

theorem remap_priority_witness:
  "final_chat_id lid_event = Some (u ''120363422170611614@g.us'')
   \<and> final_chat_id group_id_event = Some (u ''12345@g.us'')
   \<and> final_chat_id unmapped_event = Some (u ''222@lid'')
   \<and> Log WARNING ''Could not map WAHA internal ID to real group ID'' \<in> set (snd (map_chat_id unmapped_event))"
proof -
  have e: "c \<noteq> []" "\<not> endswith c individual_suffix" "\<not> endswith c group_suffix" if "c = u ''222@lid''" for c
    using that by (simp_all add: endswith_def individual_suffix_def group_suffix_def u_def suffix_Cons)
  have f: "find (\<lambda>(n, g). sublist (lower n) (lower (serialized lid_event))) known_groups
            = Some (u ''nerds'', u ''120363422170611614@g.us'')"
    unfolding contains_sublist[symmetric]
    by (simp add: known_groups_def lid_event_def lower_def lower_char_def u_def)
  from remap_priority[OF lid_resolved e[OF refl]] f
  have 1: "final_chat_id lid_event = Some (u ''120363422170611614@g.us'')" by blast
  have gr: "resolve_chat_id (message_data group_id_event) = Some (u ''222@lid'')"
    by (simp add: group_id_event_def resolve_chat_id_def is_group_field_def group_suffix_def u_def)
  have gf: "find (\<lambda>(n, g). sublist (lower n) (lower (serialized group_id_event))) known_groups = None"
    unfolding contains_sublist[symmetric]
    by (simp add: known_groups_def group_id_event_def lower_def lower_char_def u_def)
  have gg: "find_group_id (serialized group_id_event) = Some (u ''12345@g.us'')"
    by (simp add: group_id_event_def u_def is_digit_ascii group_suffix_def)
  from find_group_id_first[OF gg] have gm: "first_match (serialized group_id_event) (u ''12345@g.us'')" .
  then have "\<exists>pre m post. serialized group_id_event = pre @ m @ post \<and> matches_group_id m"
    unfolding first_match_def by blast
  with remap_priority[OF gr e[OF refl]] gf
  obtain m where "first_match (serialized group_id_event) m" "final_chat_id group_id_event = Some m"
    by blast
  with gm first_match_unique have 2: "final_chat_id group_id_event = Some (u ''12345@g.us'')" by blast
  have ur: "resolve_chat_id (message_data unmapped_event) = Some (u ''222@lid'')"
    by (simp add: unmapped_event_def resolve_chat_id_def is_group_field_def group_suffix_def u_def)
  have uf: "find (\<lambda>(n, g). sublist (lower n) (lower (serialized unmapped_event))) known_groups = None"
    unfolding contains_sublist[symmetric]
    by (simp add: known_groups_def unmapped_event_def lower_def lower_char_def u_def)
  have "find_group_id (serialized unmapped_event) = None"
    by (simp add: unmapped_event_def u_def is_digit_ascii group_suffix_def)
  then have un: "\<not> (\<exists>pre m post. serialized unmapped_event = pre @ m @ post \<and> matches_group_id m)"
    by (rule find_group_id_None)
  from remap_priority[OF ur e[OF refl]] uf un
  have "final_chat_id unmapped_event = Some (u ''222@lid'')
   \<and> Log WARNING ''Could not map WAHA internal ID to real group ID'' \<in> set (snd (map_chat_id unmapped_event))"
    by blast
  with 1 2 show ?thesis by blast
qed

end
